theory Spec2Isabelle
  imports Main
begin

section \<open>Strings and the library functions that the program calls\<close>

text \<open>
  The program is a single Go file, \<^verbatim>\<open>testrunner.go\<close>. The file holds two variants of the
  program. The second variant (lines 135 to 288: counters \<^verbatim>\<open>success\<close> and \<^verbatim>\<open>fail\<close>, the
  \<^verbatim>\<open>verbose\<close> flag, the \<^verbatim>\<open>files\<close> map) is the one embedded here as the program; of the
  first variant (lines 1 to 134) only the walk callback is embedded, under the name
  \<open>walkFn_first\<close>, because it differs from the second in what it dispatches.

  Go strings are byte strings: they are modelled as \<open>string\<close>.
\<close>

definition nl :: string where
  "nl = [CHR 0x0A]"

text \<open>
  The class \<^verbatim>\<open>\s\<close> of Go's regular expressions (RE2 syntax) is
  tab, line feed, form feed, carriage return and space.
\<close>

definition isSpaceRE :: "char \<Rightarrow> bool" where
  "isSpaceRE c = (c = CHR 0x09 \<or> c = CHR 0x0A \<or> c = CHR 0x0C \<or> c = CHR 0x0D \<or> c = CHR 0x20)"

text \<open>
  \<^verbatim>\<open>FindAllStringIndex\<close> for the expression \<^verbatim>\<open>\s+\<close> (line 171): the maximal runs of
  \<^verbatim>\<open>\s\<close> characters from left to right, each as the pair of its start and end offsets.
  The first argument is the offset of the rest of the string.
\<close>

function FindAllStringIndex :: "nat \<Rightarrow> string \<Rightarrow> (nat \<times> nat) list" where
  "FindAllStringIndex i [] = []"
| "FindAllStringIndex i (c # cs) =
     (if isSpaceRE c
      then (i, i + 1 + length (takeWhile isSpaceRE cs))
             # FindAllStringIndex (i + 1 + length (takeWhile isSpaceRE cs)) (dropWhile isSpaceRE cs)
      else FindAllStringIndex (i + 1) cs)"
  by pat_completeness auto
termination
  by (relation "measure (\<lambda>(i, s). length s)") (auto simp: length_dropWhile_le less_Suc_eq_le)

text \<open>The slice expression \<^verbatim>\<open>s[b:e]\<close> of Go, for \<open>b \<le> e \<le> length s\<close>.\<close>

definition slice :: "string \<Rightarrow> nat \<Rightarrow> nat \<Rightarrow> string" where
  "slice s b e = take (e - b) (drop b s)"

text \<open>
  \<^verbatim>\<open>split.Split(s, -1)\<close> (line 244), after the code of \<^verbatim>\<open>Regexp.Split\<close> in Go's
  library for a negative count: the empty string gives one empty part; otherwise the loop
  over the matches keeps the text before each match (unless the match ends at offset 0,
  which a non-empty match never does), and the rest of the string after the last match is
  appended whenever the last match does not start at the end of the string.
  The loop state is \<open>(beg, end, strings)\<close>.
\<close>

definition Split_loop :: "string \<Rightarrow> (nat \<times> nat) \<Rightarrow> (nat \<times> nat \<times> string list) \<Rightarrow> (nat \<times> nat \<times> string list)" where
  "Split_loop s m acc =
     (case acc of (beg, en, strings) \<Rightarrow>
        (snd m, fst m, if snd m \<noteq> 0 then strings @ [slice s beg (fst m)] else strings))"

definition Split :: "string \<Rightarrow> string list" where
  "Split s =
     (if s = [] then [[]]
      else case fold (Split_loop s) (FindAllStringIndex 0 s) (0, 0, []) of
             (beg, en, strings) \<Rightarrow>
               if en \<noteq> length s then strings @ [drop beg s] else strings)"

text \<open>\<^verbatim>\<open>strings.Join(elems, sep)\<close>.\<close>

fun Join :: "string list \<Rightarrow> string \<Rightarrow> string" where
  "Join [] sep = []"
| "Join [x] sep = x"
| "Join (x # y # ys) sep = x @ sep @ Join (y # ys) sep"

text \<open>
  \<^verbatim>\<open>strings.TrimSpace\<close> (line 220) removes the leading and the trailing white space of a
  string, where white space is what \<^verbatim>\<open>unicode.IsSpace\<close> accepts: the code points U+0009 to
  U+000D, U+0020, U+0085, U+00A0, U+1680, U+2000 to U+200A, U+2028, U+2029, U+202F, U+205F
  and U+3000. A Go string is a sequence of bytes that \<^verbatim>\<open>TrimSpace\<close> decodes as UTF-8, so
  \<open>space_runes\<close> lists the UTF-8 encodings of these code points. A byte sequence that is
  not the encoding of one of them (invalid UTF-8 included, which Go decodes as U+FFFD) is
  not white space and ends the trimming.
\<close>

definition space_runes :: "string list" where
  "space_runes =
     [ [CHR 0x09], [CHR 0x0A], [CHR 0x0B], [CHR 0x0C], [CHR 0x0D], [CHR 0x20],
       [CHR 0xC2, CHR 0x85], [CHR 0xC2, CHR 0xA0],
       [CHR 0xE1, CHR 0x9A, CHR 0x80],
       [CHR 0xE2, CHR 0x80, CHR 0x80], [CHR 0xE2, CHR 0x80, CHR 0x81],
       [CHR 0xE2, CHR 0x80, CHR 0x82], [CHR 0xE2, CHR 0x80, CHR 0x83],
       [CHR 0xE2, CHR 0x80, CHR 0x84], [CHR 0xE2, CHR 0x80, CHR 0x85],
       [CHR 0xE2, CHR 0x80, CHR 0x86], [CHR 0xE2, CHR 0x80, CHR 0x87],
       [CHR 0xE2, CHR 0x80, CHR 0x88], [CHR 0xE2, CHR 0x80, CHR 0x89],
       [CHR 0xE2, CHR 0x80, CHR 0x8A],
       [CHR 0xE2, CHR 0x80, CHR 0xA8], [CHR 0xE2, CHR 0x80, CHR 0xA9],
       [CHR 0xE2, CHR 0x80, CHR 0xAF],
       [CHR 0xE2, CHR 0x81, CHR 0x9F],
       [CHR 0xE3, CHR 0x80, CHR 0x80] ]"

text \<open>
  \<open>strip ts s\<close> removes from the front of \<open>s\<close>, again and again, whichever of the
  byte sequences \<open>ts\<close> the string begins with. With the encodings of the white space
  code points this is \<^verbatim>\<open>TrimLeftFunc(s, unicode.IsSpace)\<close>, which decodes one code point
  after the other from the front. \<^verbatim>\<open>TrimRightFunc\<close> decodes from the end: the last code
  point is white space exactly when the string ends with one of the encodings.
\<close>

function strip :: "string list \<Rightarrow> string \<Rightarrow> string" where
  "strip ts s =
     (case find (\<lambda>e. e \<noteq> [] \<and> take (length e) s = e) ts of
        None \<Rightarrow> s
      | Some e \<Rightarrow> strip ts (drop (length e) s))"
  by pat_completeness auto
termination
proof (relation "measure (\<lambda>(ts, s). length s)")
  show "wf (measure (\<lambda>(ts, s). length s))" by simp
next
  fix ts :: "string list" and s e :: string
  assume "find (\<lambda>e. e \<noteq> [] \<and> take (length e) s = e) ts = Some e"
  then have "e \<noteq> [] \<and> take (length e) s = e" by (auto simp: find_Some_iff)
  then have "0 < length e" and "s \<noteq> []" by auto
  then show "((ts, drop (length e) s), (ts, s)) \<in> measure (\<lambda>(ts, s). length s)" by simp
qed

definition TrimLeftSpace :: "string \<Rightarrow> string" where
  "TrimLeftSpace s = strip space_runes s"

definition TrimRightSpace :: "string \<Rightarrow> string" where
  "TrimRightSpace s = rev (strip (map rev space_runes) (rev s))"

definition TrimSpace :: "string \<Rightarrow> string" where
  "TrimSpace s = TrimRightSpace (TrimLeftSpace s)"

text \<open>The verb \<^verbatim>\<open>%d\<close> of \<^verbatim>\<open>fmt.Printf\<close>: an integer in decimal.\<close>

function show_nat :: "nat \<Rightarrow> string" where
  "show_nat n = (if n < 10 then [''0123456789'' ! n]
                 else show_nat (n div 10) @ [''0123456789'' ! (n mod 10)])"
  by pat_completeness auto
termination
  by (relation "measure id") auto

definition show_int :: "int \<Rightarrow> string" where
  "show_int i = (if i < 0 then ''-'' @ show_nat (nat (- i)) else show_nat (nat i))"

section \<open>Configuration and environment\<close>

text \<open>The command-line flags (lines 164 to 169).\<close>

record config =
  root :: string
  command :: string
  pattern :: string
  threads :: int
  timeout :: int
  verbose :: bool

text \<open>
  What \<^verbatim>\<open>filepath.Walk\<close> passes to its callback: the path, the \<^verbatim>\<open>os.FileInfo\<close>
  (\<open>None\<close> for Go's \<^verbatim>\<open>nil\<close>, which is what the callback gets when \<^verbatim>\<open>Lstat\<close> failed),
  and the error (\<open>None\<close> for \<^verbatim>\<open>nil\<close>).
\<close>

datatype fileinfo = FileInfo (IsDir: bool)

record walk_call =
  path :: string
  info :: "fileinfo option"
  err :: "string option"

text \<open>
  The collaborators outside the file are parameters:
  \<^item> \<open>Compile\<close> is \<^verbatim>\<open>regexp.Compile\<close>: an error text or the predicate \<^verbatim>\<open>MatchString\<close>
    of the compiled expression;
  \<^item> \<open>Walk\<close> gives, for a root, the calls that \<^verbatim>\<open>filepath.Walk\<close> makes to a callback
    that always returns \<^verbatim>\<open>nil\<close> (the callback of line 266 does), in order. For a root
    whose \<^verbatim>\<open>Lstat\<close> fails, Go makes exactly one call: the root, a \<^verbatim>\<open>nil\<close> info and the
    error;
  \<^item> \<open>CombinedOutput\<close> is \<^verbatim>\<open>exec.Cmd.CombinedOutput\<close> for a \<^verbatim>\<open>Path\<close> and \<^verbatim>\<open>Args\<close>:
    the bytes that the process wrote and the error (\<open>None\<close> for \<^verbatim>\<open>nil\<close>; an error when
    the process could not be started or did not exit with status 0);
  \<^item> \<open>DurationString\<close> is \<^verbatim>\<open>time.Duration.String\<close> on a number of nanoseconds;
  \<^item> \<open>growslice\<close> is the capacity that Go's runtime gives a slice when \<^verbatim>\<open>append\<close> has
    to grow it from a capacity to a length (the language leaves it to the implementation;
    the gc runtime doubles small capacities).
\<close>

record env =
  Compile :: "string \<Rightarrow> string + (string \<Rightarrow> bool)"
  Walk :: "string \<Rightarrow> walk_call list"
  CombinedOutput :: "string \<Rightarrow> string list \<Rightarrow> string \<times> string option"
  DurationString :: "nat \<Rightarrow> string"
  growslice :: "nat \<Rightarrow> nat \<Rightarrow> nat"

section \<open>The walk callback\<close>

text \<open>
  The callback's decision for one call, as a value: skip the entry, dispatch it (the block
  of lines 269 to 272), or panic on the \<^verbatim>\<open>nil\<close> info.

  \<open>walkFn\<close> is the callback of the program (lines 266 to 277): it reads neither \<^verbatim>\<open>info\<close>
  nor \<^verbatim>\<open>err\<close>, tests the pattern on the path, then the map \<^verbatim>\<open>files\<close>, and returns
  \<^verbatim>\<open>nil\<close> in every case.

  \<open>walkFn_first\<close> is the callback of the first variant (lines 116 to 125): it calls
  \<^verbatim>\<open>info.IsDir()\<close> first, which dereferences a \<^verbatim>\<open>nil\<close> info, and has no map.
\<close>

datatype visit = Skip | Dispatch string | NilPanic

definition walkFn :: "(string \<Rightarrow> bool) \<Rightarrow> string set \<Rightarrow> walk_call \<Rightarrow> visit" where
  "walkFn m fs c =
     (if m (path c)
      then (if path c \<notin> fs then Dispatch (path c) else Skip)
      else Skip)"

definition walkFn_first :: "(string \<Rightarrow> bool) \<Rightarrow> walk_call \<Rightarrow> visit" where
  "walkFn_first m c =
     (case info c of
        None \<Rightarrow> NilPanic
      | Some i \<Rightarrow>
          (if \<not> IsDir i
           then (if m (path c) then Dispatch (path c) else Skip)
           else Skip))"

section \<open>The state of the process\<close>

text \<open>
  \<^verbatim>\<open>cmdparts := append(parts[:], path)\<close> (line 191). In Go a slice is a view of a backing
  array, with a length and a capacity, and \<^verbatim>\<open>parts[:]\<close> is the slice \<^verbatim>\<open>parts\<close> itself, on
  the same array and with the same capacity. \<^verbatim>\<open>append\<close> allocates a new array only when
  the capacity is too small for the new element. So when the capacity of \<^verbatim>\<open>parts\<close> is
  larger than its length, \<^verbatim>\<open>append\<close> writes the path into the backing array of the
  global \<^verbatim>\<open>parts\<close>, at the index after its last element, and returns a slice of that
  array: \<open>Shared\<close>. Otherwise it copies into a new array: \<open>Fresh\<close>, with the contents.
\<close>

datatype cmdslice = Shared | Fresh "string list"

text \<open>The locals of one call of \<^verbatim>\<open>run\<close> (lines 187 to 213).\<close>

record frame =
  run_path :: string
  run_start :: nat
  cmdparts :: cmdslice
  out :: string
  run_err :: "string option"

text \<open>
  A worker goroutine (lines 179 to 184) is at one of these points:
  \<^item> \<open>WRecv\<close>: at the \<^verbatim>\<open>range\<close> over the input channel, waiting for a filename;
  \<^item> \<open>WRun p\<close>: has received \<open>p\<close>, about to enter \<^verbatim>\<open>run\<close> (lines 188 to 196);
  \<^item> \<open>WExec f\<close>: in \<^verbatim>\<open>cmd.CombinedOutput()\<close> (line 197);
  \<^item> \<open>WLock f\<close>: at \<^verbatim>\<open>resultMtx.Lock()\<close> (line 198);
  \<^item> \<open>WCount f\<close>: holds the lock, at the \<^verbatim>\<open>if\<close> of lines 199 to 203;
  \<^item> \<open>WUnlock f\<close>: at \<^verbatim>\<open>resultMtx.Unlock()\<close>, before the report is formatted
    (lines 204 to 212);
  \<^item> \<open>WDefer r\<close>: the report \<open>r\<close> is the return value, the deferred \<^verbatim>\<open>wg.Done()\<close>
    of line 188 is about to run;
  \<^item> \<open>WSend r\<close>: \<^verbatim>\<open>run\<close> has returned, at the send \<^verbatim>\<open>output <- r\<close> of line 182;
  \<^item> \<open>WExit\<close>: the \<^verbatim>\<open>range\<close> has ended.
\<close>

datatype wstate =
    WRecv
  | WRun string
  | WExec frame
  | WLock frame
  | WCount frame
  | WUnlock frame
  | WDefer string
  | WSend string
  | WExit

text \<open>
  The printer goroutine (lines 216 to 227): not started, at the \<^verbatim>\<open>select\<close>, or holding
  a received string before line 220.
\<close>

datatype pstate = PNotStarted | PSelect | PGot string

text \<open>
  The main goroutine (lines 236 to 288): before line 239; before line 255; in
  \<^verbatim>\<open>filepath.Walk\<close> with the calls still to make; at the send of line 272 with the path;
  at \<^verbatim>\<open>wg.Wait()\<close>; before each \<^verbatim>\<open>close\<close>; before the summary; before line 285.
\<close>

datatype mpc =
    MStart
  | MCompile
  | MWalk "walk_call list"
  | MSend string "walk_call list"
  | MWait
  | MCloseInput
  | MCloseOutput
  | MSummary
  | MExit

text \<open>
  The process runs, has exited with a status (\<^verbatim>\<open>os.Exit\<close>, or the return from
  \<^verbatim>\<open>main\<close> with status 0), or has died of a runtime panic in some goroutine (Go then
  exits with status 2).
\<close>

datatype pstatus = Running | Exited int | Panicked string

text \<open>The exit status that the operating system sees: none while the process runs, the
  status given to \<^verbatim>\<open>os.Exit\<close> (0 for the return from \<^verbatim>\<open>main\<close>), and 2 for a process that
  the Go runtime ends after a panic.\<close>

fun exit_status :: "pstatus \<Rightarrow> int option" where
  "exit_status Running = None"
| "exit_status (Exited c) = Some c"
| "exit_status (Panicked m) = Some 2"

text \<open>One call of the external command: the path that \<^verbatim>\<open>run\<close> was called with, and
  what \<^verbatim>\<open>CombinedOutput\<close> was given and returned.\<close>

record invocation =
  for_path :: string
  cmd_Path :: string
  cmd_Args :: "string list"
  cmd_err :: "string option"

text \<open>
  The state: the globals of lines 171 to 175, the two channels, the wait group, the
  goroutines, the locals of \<^verbatim>\<open>main\<close>, and the two output streams. The global
  \<^verbatim>\<open>parts\<close> is a slice: its elements, its capacity, and the element of its backing array
  just after its last element (\<open>parts_spare\<close>). \<open>clock\<close> is the time that \<^verbatim>\<open>time.Now\<close>
  reads. Two fields are history only, the program does not have them: \<open>sent\<close> is
  every value sent on the input channel, in order, and \<open>ran\<close> is every completed call of
  the external command, in order.
\<close>

record state =
  status :: pstatus
  clock :: nat
  parts :: "string list"
  parts_cap :: nat
  parts_spare :: string
  success :: int
  fail :: int
  resultMtx :: bool
  wg :: int
  input :: "string list"
  input_closed :: bool
  output_closed :: bool
  workers :: "wstate list"
  printer :: pstate
  mainpc :: mpc
  matcher :: "string \<Rightarrow> bool"
  start :: nat
  files :: "string set"
  stdout :: string
  stderr :: string
  sent :: "string list"
  ran :: "invocation list"

definition init :: state where
  "init = \<lparr> status = Running, clock = 0, parts = [], parts_cap = 0, parts_spare = [],
            success = 0, fail = 0, resultMtx = False, wg = 0,
            input = [], input_closed = False, output_closed = False,
            workers = [], printer = PNotStarted, mainpc = MStart,
            matcher = (\<lambda>_. False), start = 0, files = {},
            stdout = [], stderr = [], sent = [], ran = [] \<rparr>"

section \<open>The goroutines, one step at a time\<close>

text \<open>\<^verbatim>\<open>maybeLog\<close> (lines 229 to 233).\<close>

definition maybeLog :: "config \<Rightarrow> string \<Rightarrow> state \<Rightarrow> state" where
  "maybeLog cfg msg s = (if verbose cfg then s\<lparr>stderr := stderr s @ msg @ nl\<rparr> else s)"

text \<open>Reading a \<^verbatim>\<open>cmdparts\<close> slice: a shared one is read from the backing array of \<^verbatim>\<open>parts\<close>.\<close>

definition read_cmdparts :: "state \<Rightarrow> cmdslice \<Rightarrow> string list" where
  "read_cmdparts s c = (case c of Shared \<Rightarrow> parts s @ [parts_spare s] | Fresh xs \<Rightarrow> xs)"

text \<open>The format of lines 208 to 212.\<close>

definition report :: "string list \<Rightarrow> string \<Rightarrow> string \<Rightarrow> string" where
  "report cmdline output elapsed =
     ''Running '' @ Join cmdline '' '' @ nl @ nl @ output @ nl @ nl @ ''Elapsed: '' @ elapsed @ nl"

text \<open>The capacity of the input channel (line 246).\<close>

definition input_cap :: nat where
  "input_cap = 128"

text \<open>
  A step of \<^verbatim>\<open>main\<close>. \<open>None\<close> means that the goroutine is blocked: at the send of line 272
  while the channel is full, at \<^verbatim>\<open>wg.Wait()\<close> while the counter is not zero.
  \<^item> \<open>MStart\<close>, lines 239 to 253: the check of the command, the split, the workers and the
    printer. \<^verbatim>\<open>Split\<close> makes its result with the capacity of the number of matches and
    appends one part more than that, so the last \<^verbatim>\<open>append\<close> grows the slice.
  \<^item> \<open>MCompile\<close>, lines 255 to 264.
  \<^item> \<open>MWalk\<close>, one call of the callback, up to line 271; \<open>MSend\<close>, line 272.
    (\<open>walkFn\<close> never gives \<open>NilPanic\<close>; the branch is there for the type only.)
  \<^item> \<open>MWait\<close> to \<open>MExit\<close>, lines 279 to 287.
\<close>

definition main_step :: "config \<Rightarrow> env \<Rightarrow> state \<Rightarrow> state option" where
  "main_step cfg env s =
     (case mainpc s of
        MStart \<Rightarrow>
          (if command cfg = []
           then Some (s\<lparr>stdout := stdout s @ ''no command is specified'' @ nl, status := Exited 1\<rparr>)
           else Some (s\<lparr>parts := Split (command cfg),
                        parts_cap := max (length (Split (command cfg)))
                                        (growslice env (length (Split (command cfg)) - 1)
                                                       (length (Split (command cfg)))),
                        workers := replicate (nat (threads cfg)) WRecv,
                        printer := PSelect,
                        mainpc := MCompile\<rparr>))
      | MCompile \<Rightarrow>
          (case Compile env (pattern cfg) of
             Inl e \<Rightarrow> Some (s\<lparr>stdout := stdout s @ e @ nl, status := Exited 1\<rparr>)
           | Inr m \<Rightarrow>
               Some (s\<lparr>matcher := m,
                       stdout := stdout s @ ''Starting '' @ show_int (threads cfg) @ '' threads'' @ nl @ nl,
                       start := clock s,
                       files := {},
                       mainpc := MWalk (Walk env (root cfg))\<rparr>))
      | MWalk [] \<Rightarrow> Some (s\<lparr>mainpc := MWait\<rparr>)
      | MWalk (c # cs) \<Rightarrow>
          (case walkFn (matcher s) (files s) c of
             Dispatch p \<Rightarrow>
               Some ((maybeLog cfg (''Adding file '' @ p) (s\<lparr>wg := wg s + 1\<rparr>))
                       \<lparr>files := insert p (files s), mainpc := MSend p cs\<rparr>)
           | Skip \<Rightarrow> Some (s\<lparr>mainpc := MWalk cs\<rparr>)
           | NilPanic \<Rightarrow> Some (s\<lparr>status := Panicked ''nil pointer dereference''\<rparr>))
      | MSend p cs \<Rightarrow>
          (if input_closed s then Some (s\<lparr>status := Panicked ''send on closed channel''\<rparr>)
           else if length (input s) < input_cap
           then Some (s\<lparr>input := input s @ [p], sent := sent s @ [p], mainpc := MWalk cs\<rparr>)
           else None)
      | MWait \<Rightarrow> (if wg s = 0 then Some (s\<lparr>mainpc := MCloseInput\<rparr>) else None)
      | MCloseInput \<Rightarrow> Some (s\<lparr>input_closed := True, mainpc := MCloseOutput\<rparr>)
      | MCloseOutput \<Rightarrow> Some (s\<lparr>output_closed := True, mainpc := MSummary\<rparr>)
      | MSummary \<Rightarrow>
          Some (s\<lparr>stdout := stdout s @ nl @ nl @ ''Complete runtime: ''
                              @ DurationString env (clock s - start s)
                              @ '' | Success: '' @ show_int (success s)
                              @ '' Failure: '' @ show_int (fail s) @ nl @ nl,
                  mainpc := MExit\<rparr>)
      | MExit \<Rightarrow>
          (if fail s > 0 then Some (s\<lparr>status := Exited 1\<rparr>)
           else Some (s\<lparr>status := Exited 0\<rparr>)))"

text \<open>
  A step of worker \<open>i\<close>. \<open>None\<close> means that it is blocked (on the empty open input
  channel, on the held lock, on the send while the printer is not at its \<^verbatim>\<open>select\<close>) or
  has ended.
  \<^item> \<open>WRecv\<close>: the receive of line 180 and the log of line 181.
  \<^item> \<open>WRun\<close>: lines 188 to 196. \<^verbatim>\<open>parts[0]\<close> panics on an empty slice.
  \<^item> \<open>WExec\<close>: line 197; the arguments are read from the slice when the process starts.
  \<^item> \<open>WLock\<close>, \<open>WCount\<close>: lines 198 to 203.
  \<^item> \<open>WUnlock\<close>: lines 204 to 212; \<^verbatim>\<open>strings.Join\<close> reads the slice again.
  \<^item> \<open>WDefer\<close>: the deferred \<^verbatim>\<open>wg.Done()\<close>, which panics on a negative counter.
  \<^item> \<open>WSend\<close>: the send on the unbuffered output channel (line 182) completes when the
    printer is at its \<^verbatim>\<open>select\<close>; on a closed channel it panics.
\<close>

definition worker_step :: "config \<Rightarrow> env \<Rightarrow> nat \<Rightarrow> state \<Rightarrow> state option" where
  "worker_step cfg env i s =
     (if i \<ge> length (workers s) then None
      else case workers s ! i of
        WRecv \<Rightarrow>
          (case input s of
             p # q \<Rightarrow> Some ((maybeLog cfg (''Starting file '' @ p) s)
                              \<lparr>input := q, workers := (workers s)[i := WRun p]\<rparr>)
           | [] \<Rightarrow> (if input_closed s then Some (s\<lparr>workers := (workers s)[i := WExit]\<rparr>) else None))
      | WRun p \<Rightarrow>
          (case parts s of
             [] \<Rightarrow> Some (s\<lparr>status := Panicked ''index out of range''\<rparr>)
           | exe # _ \<Rightarrow>
               (if length (parts s) < parts_cap s
                then Some (s\<lparr>parts_spare := p,
                             workers := (workers s)[i := WExec \<lparr>run_path = p, run_start = clock s,
                                            cmdparts = Shared, out = [], run_err = None\<rparr>]\<rparr>)
                else Some (s\<lparr>workers := (workers s)[i := WExec \<lparr>run_path = p, run_start = clock s,
                                            cmdparts = Fresh (parts s @ [p]), out = [], run_err = None\<rparr>]\<rparr>)))
      | WExec f \<Rightarrow>
          (case CombinedOutput env (hd (parts s)) (read_cmdparts s (cmdparts f)) of
             (b, e) \<Rightarrow>
               Some (s\<lparr>workers := (workers s)[i := WLock (f\<lparr>out := b, run_err := e\<rparr>)],
                       ran := ran s @ [\<lparr>for_path = run_path f, cmd_Path = hd (parts s),
                                        cmd_Args = read_cmdparts s (cmdparts f), cmd_err = e\<rparr>]\<rparr>))
      | WLock f \<Rightarrow>
          (if resultMtx s then None
           else Some (s\<lparr>resultMtx := True, workers := (workers s)[i := WCount f]\<rparr>))
      | WCount f \<Rightarrow>
          (if run_err f \<noteq> None
           then Some (s\<lparr>fail := fail s + 1, workers := (workers s)[i := WUnlock f]\<rparr>)
           else Some (s\<lparr>success := success s + 1, workers := (workers s)[i := WUnlock f]\<rparr>))
      | WUnlock f \<Rightarrow>
          Some ((maybeLog cfg (''Finished file '' @ run_path f) (s\<lparr>resultMtx := False\<rparr>))
                  \<lparr>workers := (workers s)[i := WDefer (report (read_cmdparts s (cmdparts f)) (out f)
                                   (DurationString env (clock s - run_start f)))]\<rparr>)
      | WDefer r \<Rightarrow>
          (if wg s - 1 < 0 then Some (s\<lparr>status := Panicked ''sync: negative WaitGroup counter''\<rparr>)
           else Some (s\<lparr>wg := wg s - 1, workers := (workers s)[i := WSend r]\<rparr>))
      | WSend r \<Rightarrow>
          (if output_closed s then Some (s\<lparr>status := Panicked ''send on closed channel''\<rparr>)
           else if printer s = PSelect
           then Some (s\<lparr>printer := PGot r, workers := (workers s)[i := WRecv]\<rparr>)
           else None)
      | WExit \<Rightarrow> None)"

text \<open>
  A step of the printer (lines 216 to 227). At the \<^verbatim>\<open>select\<close> it takes a step of its own
  only when the output channel is closed: the receive then gives the empty string at once.
  (A worker's send hands a report over, see \<open>worker_step\<close>.) Holding a string, it runs
  lines 220 to 222.
\<close>

definition printer_step :: "state \<Rightarrow> state option" where
  "printer_step s =
     (case printer s of
        PNotStarted \<Rightarrow> None
      | PSelect \<Rightarrow> (if output_closed s then Some (s\<lparr>printer := PGot []\<rparr>) else None)
      | PGot r \<Rightarrow>
          (if TrimSpace r \<noteq> []
           then Some (s\<lparr>stdout := stdout s @ nl @ TrimSpace r @ nl @ nl, printer := PSelect\<rparr>)
           else Some (s\<lparr>printer := PSelect\<rparr>)))"

text \<open>The other case of the \<^verbatim>\<open>select\<close> (lines 223 and 224): the timer has fired.\<close>

definition timeout_step :: "state \<Rightarrow> state option" where
  "timeout_step s =
     (case printer s of
        PSelect \<Rightarrow> Some (s\<lparr>stdout := stdout s @ nl\<rparr>)
      | _ \<Rightarrow> None)"

text \<open>
  The scheduler's choices: which goroutine takes its next step, the printer's timer
  firing, or time passing. A dead process takes no step.
\<close>

datatype event = Main | Worker nat | Printer | Timeout | Advance nat

definition step :: "config \<Rightarrow> env \<Rightarrow> event \<Rightarrow> state \<Rightarrow> state option" where
  "step cfg env ev s =
     (if status s \<noteq> Running then None
      else case ev of
        Main \<Rightarrow> main_step cfg env s
      | Worker i \<Rightarrow> worker_step cfg env i s
      | Printer \<Rightarrow> printer_step s
      | Timeout \<Rightarrow> timeout_step s
      | Advance d \<Rightarrow> Some (s\<lparr>clock := clock s + d\<rparr>))"

text \<open>A run under a schedule; \<open>None\<close> when the schedule asks a blocked goroutine to move.\<close>

fun exec :: "config \<Rightarrow> env \<Rightarrow> event list \<Rightarrow> state \<Rightarrow> state option" where
  "exec cfg env [] s = Some s"
| "exec cfg env (ev # evs) s =
     (case step cfg env ev s of None \<Rightarrow> None | Some s' \<Rightarrow> exec cfg env evs s')"

section \<open>Counting the goroutines\<close>

text \<open>
  The invariants count the workers that are at given points of their code. A weight gives
  each worker 0 or 1, and \<open>total\<close> adds the weights up.
  \<^item> \<open>holds\<close>: the worker has received a filename and its \<^verbatim>\<open>wg.Done()\<close> has not run;
  \<^item> \<open>unran\<close>: it has received a filename and the command has not completed;
  \<^item> \<open>failing\<close>, \<open>passing\<close>: the command has completed, with or without an error, and
    the counter is not incremented yet;
  \<^item> \<open>crit\<close>: it is between \<^verbatim>\<open>resultMtx.Lock()\<close> and \<^verbatim>\<open>resultMtx.Unlock()\<close>.
\<close>

definition total :: "(wstate \<Rightarrow> int) \<Rightarrow> wstate list \<Rightarrow> int" where
  "total f ws = sum_list (map f ws)"

fun holds :: "wstate \<Rightarrow> int" where
  "holds WRecv = 0" | "holds (WRun p) = 1" | "holds (WExec f) = 1" | "holds (WLock f) = 1"
| "holds (WCount f) = 1" | "holds (WUnlock f) = 1" | "holds (WDefer r) = 1"
| "holds (WSend r) = 0" | "holds WExit = 0"

fun unran :: "wstate \<Rightarrow> int" where
  "unran (WRun p) = 1" | "unran (WExec f) = 1" | "unran WRecv = 0" | "unran (WLock f) = 0"
| "unran (WCount f) = 0" | "unran (WUnlock f) = 0" | "unran (WDefer r) = 0"
| "unran (WSend r) = 0" | "unran WExit = 0"

definition b2i :: "bool \<Rightarrow> int" where
  "b2i b = (if b then 1 else 0)"

fun failing :: "wstate \<Rightarrow> int" where
  "failing (WLock f) = b2i (run_err f \<noteq> None)"
| "failing (WCount f) = b2i (run_err f \<noteq> None)"
| "failing WRecv = 0" | "failing (WRun p) = 0" | "failing (WExec f) = 0"
| "failing (WUnlock f) = 0" | "failing (WDefer r) = 0"
| "failing (WSend r) = 0" | "failing WExit = 0"

fun passing :: "wstate \<Rightarrow> int" where
  "passing (WLock f) = b2i (run_err f = None)"
| "passing (WCount f) = b2i (run_err f = None)"
| "passing WRecv = 0" | "passing (WRun p) = 0" | "passing (WExec f) = 0"
| "passing (WUnlock f) = 0" | "passing (WDefer r) = 0"
| "passing (WSend r) = 0" | "passing WExit = 0"

fun crit :: "wstate \<Rightarrow> int" where
  "crit (WCount f) = 1" | "crit (WUnlock f) = 1"
| "crit WRecv = 0" | "crit (WRun p) = 0" | "crit (WExec f) = 0" | "crit (WLock f) = 0"
| "crit (WDefer r) = 0" | "crit (WSend r) = 0" | "crit WExit = 0"

text \<open>\<open>sending\<close>: \<^verbatim>\<open>main\<close> has run \<^verbatim>\<open>wg.Add(1)\<close> (line 269) and not yet the send of line 272.\<close>

fun sending :: "mpc \<Rightarrow> int" where
  "sending (MSend p cs) = 1" | "sending MStart = 0" | "sending MCompile = 0"
| "sending (MWalk cs) = 0" | "sending MWait = 0" | "sending MCloseInput = 0"
| "sending MCloseOutput = 0" | "sending MSummary = 0" | "sending MExit = 0"

fun sending_path :: "mpc \<Rightarrow> string set" where
  "sending_path (MSend p cs) = {p}" | "sending_path MStart = {}" | "sending_path MCompile = {}"
| "sending_path (MWalk cs) = {}" | "sending_path MWait = {}" | "sending_path MCloseInput = {}"
| "sending_path MCloseOutput = {}" | "sending_path MSummary = {}" | "sending_path MExit = {}"

text \<open>\<open>past_wait\<close>: \<^verbatim>\<open>wg.Wait()\<close> (line 279) has returned.\<close>

fun past_wait :: "mpc \<Rightarrow> bool" where
  "past_wait MCloseInput = True" | "past_wait MCloseOutput = True"
| "past_wait MSummary = True" | "past_wait MExit = True"
| "past_wait MStart = False" | "past_wait MCompile = False" | "past_wait (MWalk cs) = False"
| "past_wait (MSend p cs) = False" | "past_wait MWait = False"

text \<open>\<open>before_walk\<close>: \<^verbatim>\<open>main\<close> has not reached \<^verbatim>\<open>filepath.Walk\<close> (line 266).\<close>

fun before_walk :: "mpc \<Rightarrow> bool" where
  "before_walk MStart = True" | "before_walk MCompile = True"
| "before_walk (MWalk cs) = False" | "before_walk (MSend p cs) = False"
| "before_walk MWait = False" | "before_walk MCloseInput = False"
| "before_walk MCloseOutput = False" | "before_walk MSummary = False" | "before_walk MExit = False"

text \<open>The wait group counts the filenames in the channel, with the workers and with \<^verbatim>\<open>main\<close>.\<close>

definition inv_wg :: "state \<Rightarrow> bool" where
  "inv_wg s \<longleftrightarrow>
     wg s = int (length (input s)) + total holds (workers s) + sending (mainpc s)"

text \<open>Every filename sent is in the channel, with a worker before its command has
  completed, or has had its command completed.\<close>

definition inv_sent :: "state \<Rightarrow> bool" where
  "inv_sent s \<longleftrightarrow>
     int (length (sent s)) =
       int (length (ran s)) + int (length (input s)) + total unran (workers s)"

text \<open>The counters count the completed commands, less those not yet counted.\<close>

definition inv_tally :: "state \<Rightarrow> bool" where
  "inv_tally s \<longleftrightarrow>
     int (length (filter (\<lambda>r. cmd_err r \<noteq> None) (ran s))) = fail s + total failing (workers s)
   \<and> int (length (filter (\<lambda>r. cmd_err r = None) (ran s))) = success s + total passing (workers s)"

text \<open>The lock is held exactly when one worker is in the critical section.\<close>

definition inv_mtx :: "state \<Rightarrow> bool" where
  "inv_mtx s \<longleftrightarrow> total crit (workers s) = b2i (resultMtx s)"

text \<open>
  What the program counter of \<^verbatim>\<open>main\<close> fixes: no worker before line 249; the global
  \<^verbatim>\<open>parts\<close> after line 244; nothing sent before the walk; the channels open until their
  \<^verbatim>\<open>close\<close>; the wait group at zero once \<^verbatim>\<open>wg.Wait()\<close> has returned.
\<close>

definition inv_pc :: "config \<Rightarrow> state \<Rightarrow> bool" where
  "inv_pc cfg s \<longleftrightarrow>
     (case mainpc s of
        MStart \<Rightarrow> workers s = [] \<and> sent s = [] \<and> \<not> input_closed s \<and> \<not> output_closed s
      | MCompile \<Rightarrow> parts s = Split (command cfg) \<and> sent s = []
                      \<and> \<not> input_closed s \<and> \<not> output_closed s
      | MWalk cs \<Rightarrow> parts s = Split (command cfg) \<and> \<not> input_closed s \<and> \<not> output_closed s
      | MSend p cs \<Rightarrow> parts s = Split (command cfg) \<and> \<not> input_closed s \<and> \<not> output_closed s
      | MWait \<Rightarrow> parts s = Split (command cfg) \<and> \<not> input_closed s \<and> \<not> output_closed s
      | MCloseInput \<Rightarrow> parts s = Split (command cfg) \<and> wg s = 0
                      \<and> \<not> input_closed s \<and> \<not> output_closed s
      | MCloseOutput \<Rightarrow> parts s = Split (command cfg) \<and> wg s = 0 \<and> \<not> output_closed s
      | MSummary \<Rightarrow> parts s = Split (command cfg) \<and> wg s = 0
      | MExit \<Rightarrow> parts s = Split (command cfg) \<and> wg s = 0)"

text \<open>The map \<^verbatim>\<open>files\<close> holds the filenames sent, and the one about to be sent.\<close>

definition inv_files :: "state \<Rightarrow> bool" where
  "inv_files s \<longleftrightarrow>
     distinct (sent s)
   \<and> sending_path (mainpc s) \<inter> set (sent s) = {}
   \<and> (before_walk (mainpc s) \<or> files s = set (sent s) \<union> sending_path (mainpc s))"

text \<open>How the process can have ended.\<close>

definition inv_exit :: "config \<Rightarrow> env \<Rightarrow> state \<Rightarrow> bool" where
  "inv_exit cfg env s \<longleftrightarrow>
     (case status s of
        Running \<Rightarrow> True
      | Exited c \<Rightarrow>
          (mainpc s = MStart \<and> command cfg = [] \<and> c = 1)
        \<or> (mainpc s = MCompile \<and> isl (Compile env (pattern cfg)) \<and> c = 1)
        \<or> (mainpc s = MExit \<and> c = (if fail s > 0 then 1 else 0))
      | Panicked m \<Rightarrow> m = ''send on closed channel'' \<and> output_closed s)"

text \<open>Every completed command was given the first part of the command as its path, and
  returned what the environment returns for its path and arguments.\<close>

definition inv_ran :: "config \<Rightarrow> env \<Rightarrow> state \<Rightarrow> bool" where
  "inv_ran cfg env s \<longleftrightarrow>
     list_all (\<lambda>r. cmd_Path r = hd (Split (command cfg))
                  \<and> cmd_err r = snd (CombinedOutput env (cmd_Path r) (cmd_Args r))) (ran s)"

text \<open>
  While the slice \<^verbatim>\<open>parts\<close> has no spare capacity, every \<^verbatim>\<open>cmdparts\<close> is a slice of its
  own that ends with the path that \<^verbatim>\<open>run\<close> was called with, and so did the arguments of
  every command that was run.
\<close>

fun frame_ok :: "config \<Rightarrow> wstate \<Rightarrow> bool" where
  "frame_ok cfg (WExec f) = (cmdparts f = Fresh (Split (command cfg) @ [run_path f]))"
| "frame_ok cfg (WLock f) = (cmdparts f = Fresh (Split (command cfg) @ [run_path f]))"
| "frame_ok cfg (WCount f) = (cmdparts f = Fresh (Split (command cfg) @ [run_path f]))"
| "frame_ok cfg (WUnlock f) = (cmdparts f = Fresh (Split (command cfg) @ [run_path f]))"
| "frame_ok cfg WRecv = True" | "frame_ok cfg (WRun p) = True" | "frame_ok cfg (WDefer r) = True"
| "frame_ok cfg (WSend r) = True" | "frame_ok cfg WExit = True"

definition inv_args :: "config \<Rightarrow> state \<Rightarrow> bool" where
  "inv_args cfg s \<longleftrightarrow>
     length (parts s) < parts_cap s
   \<or> (list_all (frame_ok cfg) (workers s)
      \<and> list_all (\<lambda>r. cmd_Args r = Split (command cfg) @ [for_path r]) (ran s))"

text \<open>\<^verbatim>\<open>main\<close> gets past line 242 only with a command, and past line 259 only with a
  pattern that compiles.\<close>

definition inv_cfg :: "config \<Rightarrow> env \<Rightarrow> state \<Rightarrow> bool" where
  "inv_cfg cfg env s \<longleftrightarrow>
     (mainpc s = MStart \<or> command cfg \<noteq> [])
   \<and> (before_walk (mainpc s) \<or> \<not> isl (Compile env (pattern cfg)))"

text \<open>All of them together.\<close>

definition inv_all :: "config \<Rightarrow> env \<Rightarrow> state \<Rightarrow> bool" where
  "inv_all cfg env s \<longleftrightarrow>
     inv_pc cfg s \<and> inv_wg s \<and> inv_sent s \<and> inv_tally s \<and> inv_mtx s \<and> inv_files s
   \<and> inv_exit cfg env s \<and> inv_ran cfg env s \<and> inv_cfg cfg env s"

section \<open>A concrete run\<close>

text \<open>
  A small world for the concrete instances of the theorems: a command of two parts, two
  workers, and a walk that yields the root directory, a test file, a file that does not
  match, the test file a second time, and a second test file, on which the command fails.
\<close>

definition demo_cfg :: config where
  "demo_cfg = \<lparr> root = ''t'', command = ''php run'', pattern = ''T$'',
                threads = 2, timeout = 9, verbose = False \<rparr>"

definition demo_walk :: "walk_call list" where
  "demo_walk =
     [ \<lparr> path = ''t'', info = Some (FileInfo True), err = None \<rparr>,
       \<lparr> path = ''t/aT'', info = Some (FileInfo False), err = None \<rparr>,
       \<lparr> path = ''t/b'', info = Some (FileInfo False), err = None \<rparr>,
       \<lparr> path = ''t/aT'', info = Some (FileInfo False), err = None \<rparr>,
       \<lparr> path = ''t/cT'', info = Some (FileInfo False), err = None \<rparr> ]"

definition demo_matcher :: "string \<Rightarrow> bool" where
  "demo_matcher s = (s \<noteq> [] \<and> last s = CHR ''T'')"

definition demo_env :: env where
  "demo_env = \<lparr> Compile = (\<lambda>p. Inr demo_matcher),
                Walk = (\<lambda>r. demo_walk),
                CombinedOutput = (\<lambda>p args. if last args = ''t/cT''
                                            then (''boom'', Some ''exit status 1'')
                                            else (''ok'', None)),
                DurationString = (\<lambda>n. ''0s''),
                growslice = (\<lambda>old new. max new (2 * old)) \<rparr>"

text \<open>A schedule that runs the two commands side by side and ends the process.\<close>

definition demo_schedule :: "event list" where
  "demo_schedule =
     [Main, Main, Main, Main, Main, Main, Main, Main, Main, Main,
      Worker 0, Worker 0, Worker 0, Worker 1, Worker 1, Worker 1,
      Worker 0, Worker 0, Worker 0, Worker 0, Worker 1, Worker 1, Worker 1, Worker 1,
      Worker 0, Printer, Worker 1, Printer,
      Main, Main, Main, Main, Main]"

text \<open>
  A schedule in the same world in which both workers run their command, count it and run
  their deferred \<^verbatim>\<open>wg.Done()\<close>, and \<^verbatim>\<open>main\<close> then goes on through \<^verbatim>\<open>wg.Wait()\<close> and
  both \<^verbatim>\<open>close\<close> calls before any worker has sent its report.
\<close>

definition early_done_schedule :: "event list" where
  "early_done_schedule =
     [Main, Main, Main, Main, Main, Main, Main, Main, Main, Main,
      Worker 0, Worker 0, Worker 0, Worker 0, Worker 0, Worker 0, Worker 0,
      Worker 1, Worker 1, Worker 1, Worker 1, Worker 1, Worker 1, Worker 1,
      Main, Main, Main]"

text \<open>
  The same world with a command of three parts. \<^verbatim>\<open>Split\<close> makes a slice of capacity 2
  for it and appends three parts; the gc runtime grows the slice to capacity 4. In the
  schedule both workers run line 191 before the first of them runs line 197.
\<close>

definition alias_cfg :: config where
  "alias_cfg = demo_cfg\<lparr>command := ''php run -v''\<rparr>"

definition alias_schedule :: "event list" where
  "alias_schedule =
     [Main, Main, Main, Main, Main, Main, Main, Main, Main, Main,
      Worker 0, Worker 1, Worker 0, Worker 1, Worker 0]"

text \<open>A walk that yields one directory whose name matches the pattern.\<close>

definition dir_call :: walk_call where
  "dir_call = \<lparr> path = ''t/dirT'', info = Some (FileInfo True), err = None \<rparr>"

definition dir_env :: env where
  "dir_env = demo_env\<lparr>Walk := (\<lambda>r. [dir_call])\<rparr>"

definition dir_schedule :: "event list" where
  "dir_schedule = [Main, Main, Main, Main]"

text \<open>
  A root that \<^verbatim>\<open>Lstat\<close> cannot read: \<^verbatim>\<open>filepath.Walk\<close> calls the callback once, with the
  root, a \<^verbatim>\<open>nil\<close> info and the error. The name of the root matches the pattern.
\<close>

definition noroot_cfg :: config where
  "noroot_cfg = demo_cfg\<lparr>root := ''goneT''\<rparr>"

definition noroot_env :: env where
  "noroot_env = demo_env\<lparr>Walk := (\<lambda>r. [\<lparr> path = r, info = None,
                    err = Some ''lstat goneT: no such file or directory'' \<rparr>])\<rparr>"

definition noroot_schedule :: "event list" where
  "noroot_schedule =
     [Main, Main, Main, Main, Main,
      Worker 0, Worker 0, Worker 0, Worker 0, Worker 0, Worker 0, Worker 0, Worker 0, Printer,
      Main, Main, Main, Main, Main]"

text \<open>A command whose executable does not exist: the process cannot be started, and
  \<^verbatim>\<open>CombinedOutput\<close> returns no bytes and the error.\<close>

definition launch_cfg :: config where
  "launch_cfg = demo_cfg\<lparr>command := ''nosuchprog''\<rparr>"

definition launch_env :: env where
  "launch_env = demo_env\<lparr>CombinedOutput :=
     (\<lambda>p args. ([], Some ''fork/exec nosuchprog: no such file or directory''))\<rparr>"

definition launch_schedule :: "event list" where
  "launch_schedule =
     [Main, Main, Main, Main, Main, Main, Main, Main, Main, Main,
      Worker 0, Worker 0, Worker 0, Worker 0, Worker 0, Worker 0]"

text \<open>A command that begins with a space, and an environment in which a process with an
  empty path cannot be started.\<close>

definition blank_cfg :: config where
  "blank_cfg = demo_cfg\<lparr>command := '' php''\<rparr>"

definition blank_env :: env where
  "blank_env = demo_env\<lparr>CombinedOutput :=
     (\<lambda>p args. if p = [] then ([], Some ''fork/exec : no such file or directory'')
                else (''ok'', None))\<rparr>"

text \<open>The world of the concrete run with a command that succeeds on every file.\<close>

definition ok_env :: env where
  "ok_env = demo_env\<lparr>CombinedOutput := (\<lambda>p args. (''ok'', None))\<rparr>"

text \<open>
  The schedule of the concrete run without the last step of the printer: the printer has
  received the second report and \<^verbatim>\<open>main\<close> runs to its end before line 220.
\<close>

definition unprinted_schedule :: "event list" where
  "unprinted_schedule =
     [Main, Main, Main, Main, Main, Main, Main, Main, Main, Main,
      Worker 0, Worker 0, Worker 0, Worker 1, Worker 1, Worker 1,
      Worker 0, Worker 0, Worker 0, Worker 0, Worker 1, Worker 1, Worker 1, Worker 1,
      Worker 0, Printer, Worker 1,
      Main, Main, Main, Main, Main]"

text \<open>The command that begins with a space, and a walk that yields no file that matches.\<close>

definition nomatch_env :: env where
  "nomatch_env = blank_env\<lparr>Walk := (\<lambda>r. [\<lparr> path = ''t/b'', info = Some (FileInfo False),
                                             err = None \<rparr>])\<rparr>"

definition nomatch_schedule :: "event list" where
  "nomatch_schedule = [Main, Main, Main, Main, Main, Main, Main, Main, Main]"

section \<open>Lemmas about the library functions and the counting\<close>

declare strip.simps [simp del]

lemma maybeLog_fields:
  "status (maybeLog cfg m s) = status s"
  "clock (maybeLog cfg m s) = clock s"
  "parts (maybeLog cfg m s) = parts s"
  "parts_cap (maybeLog cfg m s) = parts_cap s"
  "parts_spare (maybeLog cfg m s) = parts_spare s"
  "success (maybeLog cfg m s) = success s"
  "fail (maybeLog cfg m s) = fail s"
  "resultMtx (maybeLog cfg m s) = resultMtx s"
  "wg (maybeLog cfg m s) = wg s"
  "input (maybeLog cfg m s) = input s"
  "input_closed (maybeLog cfg m s) = input_closed s"
  "output_closed (maybeLog cfg m s) = output_closed s"
  "workers (maybeLog cfg m s) = workers s"
  "printer (maybeLog cfg m s) = printer s"
  "mainpc (maybeLog cfg m s) = mainpc s"
  "matcher (maybeLog cfg m s) = matcher s"
  "start (maybeLog cfg m s) = start s"
  "files (maybeLog cfg m s) = files s"
  "stdout (maybeLog cfg m s) = stdout s"
  "sent (maybeLog cfg m s) = sent s"
  "ran (maybeLog cfg m s) = ran s"
  by (simp_all add: maybeLog_def)

lemma total_update: "i < length ws \<Longrightarrow> total f (ws[i := w]) = total f ws - f (ws ! i) + f w"
  unfolding total_def
proof (induction ws arbitrary: i)
  case Nil
  then show ?case by simp
next
  case (Cons a ws)
  then show ?case by (cases i) auto
qed

lemma total_replicate: "total f (replicate n w) = int n * f w"
  unfolding total_def by (induction n) (auto simp: algebra_simps)

lemma total_Nil: "total f [] = 0"
  by (simp add: total_def)

lemma total_nonneg: "(\<And>w. 0 \<le> f w) \<Longrightarrow> 0 \<le> total f ws"
  unfolding total_def by (induction ws) (auto simp: add_nonneg_nonneg)

lemma total_mono: "(\<And>w. f w \<le> g w) \<Longrightarrow> total f ws \<le> total g ws"
  unfolding total_def by (induction ws) (auto simp: add_mono)

lemma total_ge_nth: "(\<And>w. 0 \<le> f w) \<Longrightarrow> i < length ws \<Longrightarrow> f (ws ! i) \<le> total f ws"
proof (induction ws arbitrary: i)
  case Nil
  then show ?case by simp
next
  case (Cons a ws)
  have t: "0 \<le> total f ws" using Cons.prems(1) by (rule total_nonneg)
  show ?case
  proof (cases i)
    case 0
    then show ?thesis using t by (simp add: total_def)
  next
    case (Suc j)
    then have "f (ws ! j) \<le> total f ws" using Cons by simp
    then show ?thesis using Suc Cons.prems(1) [of a] by (simp add: total_def)
  qed
qed

lemma holds_nonneg: "0 \<le> holds w" by (cases w) auto
lemma unran_nonneg: "0 \<le> unran w" by (cases w) auto
lemma failing_nonneg: "0 \<le> failing w" by (cases w) (auto simp: b2i_def)
lemma passing_nonneg: "0 \<le> passing w" by (cases w) (auto simp: b2i_def)
lemma crit_nonneg: "0 \<le> crit w" by (cases w) auto
lemma unran_le_holds: "unran w \<le> holds w" by (cases w) auto
lemma failing_le_holds: "failing w \<le> holds w" by (cases w) (auto simp: b2i_def)
lemma passing_le_holds: "passing w \<le> holds w" by (cases w) (auto simp: b2i_def)

lemma FindAll_bounds:
  "(a, b) \<in> set (FindAllStringIndex i s) \<Longrightarrow> i \<le> a \<and> a < b \<and> b \<le> i + length s"
proof (induction i s rule: FindAllStringIndex.induct)
  case (1 i)
  then show ?case by simp
next
  case (2 i c cs)
  have len: "length (takeWhile isSpaceRE cs) + length (dropWhile isSpaceRE cs) = length cs"
    by (metis length_append takeWhile_dropWhile_id)
  show ?case
  proof (cases "isSpaceRE c")
    case True
    then show ?thesis using 2 len by auto
  next
    case False
    then show ?thesis using 2 by auto
  qed
qed

lemma fold_Split_loop_en:
  "fst (snd (fold (Split_loop s) ms (b, e, st))) = (if ms = [] then e else fst (last ms))"
  by (induction ms arbitrary: b e st) (auto simp: Split_loop_def)

lemma Split_en_less:
  assumes "s \<noteq> []"
  shows "fst (snd (fold (Split_loop s) (FindAllStringIndex 0 s) (0, 0, []))) < length s"
proof (cases "FindAllStringIndex 0 s = []")
  case True
  then show ?thesis using assms by (simp add: fold_Split_loop_en)
next
  case False
  then have "last (FindAllStringIndex 0 s) \<in> set (FindAllStringIndex 0 s)" by simp
  then have "fst (last (FindAllStringIndex 0 s)) < length s"
    using FindAll_bounds [of "fst (last (FindAllStringIndex 0 s))" "snd (last (FindAllStringIndex 0 s))" 0 s]
    by simp
  then show ?thesis using False by (simp add: fold_Split_loop_en)
qed

lemma Split_not_Nil: "Split s \<noteq> []"
proof (cases "s = []")
  case True
  then show ?thesis by (simp add: Split_def)
next
  case False
  obtain b e st where f: "fold (Split_loop s) (FindAllStringIndex 0 s) (0, 0, []) = (b, e, st)"
    by (cases "fold (Split_loop s) (FindAllStringIndex 0 s) (0, 0, [])") auto
  have "e < length s" using Split_en_less [OF False] f by simp
  then show ?thesis using False f by (auto simp: Split_def)
qed

section \<open>Case analysis of a step\<close>

lemma main_step_cases [consumes 1, case_names NoCommand Start BadPattern Compiled Walked Dispatch Skip
    SendPanic Send Wait CloseInput CloseOutput Summary Exit1 Exit0]:
  assumes "main_step cfg env s = Some s'"
  obtains
    (NoCommand) "mainpc s = MStart" "command cfg = []"
      "s' = s\<lparr>stdout := stdout s @ ''no command is specified'' @ nl, status := Exited 1\<rparr>"
  | (Start) "mainpc s = MStart" "command cfg \<noteq> []"
      "s' = s\<lparr>parts := Split (command cfg),
               parts_cap := max (length (Split (command cfg)))
                               (growslice env (length (Split (command cfg)) - 1)
                                              (length (Split (command cfg)))),
               workers := replicate (nat (threads cfg)) WRecv,
               printer := PSelect,
               mainpc := MCompile\<rparr>"
  | (BadPattern) e where "mainpc s = MCompile" "Compile env (pattern cfg) = Inl e"
      "s' = s\<lparr>stdout := stdout s @ e @ nl, status := Exited 1\<rparr>"
  | (Compiled) m where "mainpc s = MCompile" "Compile env (pattern cfg) = Inr m"
      "s' = s\<lparr>matcher := m,
               stdout := stdout s @ ''Starting '' @ show_int (threads cfg) @ '' threads'' @ nl @ nl,
               start := clock s,
               files := {},
               mainpc := MWalk (Walk env (root cfg))\<rparr>"
  | (Walked) "mainpc s = MWalk []" "s' = s\<lparr>mainpc := MWait\<rparr>"
  | (Dispatch) c cs where "mainpc s = MWalk (c # cs)" "walkFn (matcher s) (files s) c = Dispatch (path c)"
      "matcher s (path c)" "path c \<notin> files s"
      "s' = (maybeLog cfg (''Adding file '' @ path c) (s\<lparr>wg := wg s + 1\<rparr>))
               \<lparr>files := insert (path c) (files s), mainpc := MSend (path c) cs\<rparr>"
  | (Skip) c cs where "mainpc s = MWalk (c # cs)" "walkFn (matcher s) (files s) c = Skip"
      "s' = s\<lparr>mainpc := MWalk cs\<rparr>"
  | (SendPanic) p cs where "mainpc s = MSend p cs" "input_closed s"
      "s' = s\<lparr>status := Panicked ''send on closed channel''\<rparr>"
  | (Send) p cs where "mainpc s = MSend p cs" "\<not> input_closed s" "length (input s) < input_cap"
      "s' = s\<lparr>input := input s @ [p], sent := sent s @ [p], mainpc := MWalk cs\<rparr>"
  | (Wait) "mainpc s = MWait" "wg s = 0" "s' = s\<lparr>mainpc := MCloseInput\<rparr>"
  | (CloseInput) "mainpc s = MCloseInput" "s' = s\<lparr>input_closed := True, mainpc := MCloseOutput\<rparr>"
  | (CloseOutput) "mainpc s = MCloseOutput" "s' = s\<lparr>output_closed := True, mainpc := MSummary\<rparr>"
  | (Summary) "mainpc s = MSummary"
      "s' = s\<lparr>stdout := stdout s @ nl @ nl @ ''Complete runtime: ''
                              @ DurationString env (clock s - start s)
                              @ '' | Success: '' @ show_int (success s)
                              @ '' Failure: '' @ show_int (fail s) @ nl @ nl,
               mainpc := MExit\<rparr>"
  | (Exit1) "mainpc s = MExit" "fail s > 0" "s' = s\<lparr>status := Exited 1\<rparr>"
  | (Exit0) "mainpc s = MExit" "\<not> fail s > 0" "s' = s\<lparr>status := Exited 0\<rparr>"
proof (cases "mainpc s")
  case MStart
  then show ?thesis using assms NoCommand Start
    by (cases "command cfg = []") (simp_all add: main_step_def)
next
  case MCompile
  then show ?thesis using assms BadPattern Compiled
    by (cases "Compile env (pattern cfg)") (simp_all add: main_step_def)
next
  case (MWalk cs)
  show ?thesis
  proof (cases cs)
    case Nil
    then show ?thesis using assms MWalk Walked by (simp add: main_step_def)
  next
    case (Cons c cs')
    show ?thesis
    proof (cases "matcher s (path c) \<and> path c \<notin> files s")
      case True
      then have "walkFn (matcher s) (files s) c = Dispatch (path c)" by (simp add: walkFn_def)
      then show ?thesis using assms MWalk Cons True Dispatch [of c cs'] by (simp add: main_step_def)
    next
      case False
      then have "walkFn (matcher s) (files s) c = Skip" by (auto simp: walkFn_def)
      then show ?thesis using assms MWalk Cons Skip [of c cs'] by (simp add: main_step_def)
    qed
  qed
next
  case (MSend p cs)
  then show ?thesis using assms SendPanic [of p cs] Send [of p cs]
    by (cases "input_closed s") (simp_all add: main_step_def split: if_splits)
next
  case MWait
  then show ?thesis using assms Wait by (simp add: main_step_def split: if_splits)
next
  case MCloseInput
  then show ?thesis using assms CloseInput by (simp add: main_step_def)
next
  case MCloseOutput
  then show ?thesis using assms CloseOutput by (simp add: main_step_def)
next
  case MSummary
  then show ?thesis using assms Summary by (simp add: main_step_def)
next
  case MExit
  then show ?thesis using assms Exit1 Exit0
    by (cases "fail s > 0") (simp_all add: main_step_def)
qed

lemma worker_step_cases [consumes 1, case_names Recv End RunPanic RunShared RunFresh Exec Lock
    CountFail CountOk Unlock DeferPanic Defer SendPanic Send]:
  assumes "worker_step cfg env i s = Some s'"
  obtains
    (Recv) p q where "i < length (workers s)" "workers s ! i = WRecv" "input s = p # q"
      "s' = (maybeLog cfg (''Starting file '' @ p) s)\<lparr>input := q, workers := (workers s)[i := WRun p]\<rparr>"
  | (End) "i < length (workers s)" "workers s ! i = WRecv" "input s = []" "input_closed s"
      "s' = s\<lparr>workers := (workers s)[i := WExit]\<rparr>"
  | (RunPanic) p where "i < length (workers s)" "workers s ! i = WRun p" "parts s = []"
      "s' = s\<lparr>status := Panicked ''index out of range''\<rparr>"
  | (RunShared) p where "i < length (workers s)" "workers s ! i = WRun p" "parts s \<noteq> []"
      "length (parts s) < parts_cap s"
      "s' = s\<lparr>parts_spare := p,
               workers := (workers s)[i := WExec \<lparr>run_path = p, run_start = clock s,
                              cmdparts = Shared, out = [], run_err = None\<rparr>]\<rparr>"
  | (RunFresh) p where "i < length (workers s)" "workers s ! i = WRun p" "parts s \<noteq> []"
      "\<not> length (parts s) < parts_cap s"
      "s' = s\<lparr>workers := (workers s)[i := WExec \<lparr>run_path = p, run_start = clock s,
                              cmdparts = Fresh (parts s @ [p]), out = [], run_err = None\<rparr>]\<rparr>"
  | (Exec) f b e where "i < length (workers s)" "workers s ! i = WExec f"
      "CombinedOutput env (hd (parts s)) (read_cmdparts s (cmdparts f)) = (b, e)"
      "s' = s\<lparr>workers := (workers s)[i := WLock (f\<lparr>out := b, run_err := e\<rparr>)],
               ran := ran s @ [\<lparr>for_path = run_path f, cmd_Path = hd (parts s),
                                cmd_Args = read_cmdparts s (cmdparts f), cmd_err = e\<rparr>]\<rparr>"
  | (Lock) f where "i < length (workers s)" "workers s ! i = WLock f" "\<not> resultMtx s"
      "s' = s\<lparr>resultMtx := True, workers := (workers s)[i := WCount f]\<rparr>"
  | (CountFail) f where "i < length (workers s)" "workers s ! i = WCount f" "run_err f \<noteq> None"
      "s' = s\<lparr>fail := fail s + 1, workers := (workers s)[i := WUnlock f]\<rparr>"
  | (CountOk) f where "i < length (workers s)" "workers s ! i = WCount f" "run_err f = None"
      "s' = s\<lparr>success := success s + 1, workers := (workers s)[i := WUnlock f]\<rparr>"
  | (Unlock) f where "i < length (workers s)" "workers s ! i = WUnlock f"
      "s' = (maybeLog cfg (''Finished file '' @ run_path f) (s\<lparr>resultMtx := False\<rparr>))
               \<lparr>workers := (workers s)[i := WDefer (report (read_cmdparts s (cmdparts f)) (out f)
                                (DurationString env (clock s - run_start f)))]\<rparr>"
  | (DeferPanic) r where "i < length (workers s)" "workers s ! i = WDefer r" "wg s - 1 < 0"
      "s' = s\<lparr>status := Panicked ''sync: negative WaitGroup counter''\<rparr>"
  | (Defer) r where "i < length (workers s)" "workers s ! i = WDefer r" "\<not> wg s - 1 < 0"
      "s' = s\<lparr>wg := wg s - 1, workers := (workers s)[i := WSend r]\<rparr>"
  | (SendPanic) r where "i < length (workers s)" "workers s ! i = WSend r" "output_closed s"
      "s' = s\<lparr>status := Panicked ''send on closed channel''\<rparr>"
  | (Send) r where "i < length (workers s)" "workers s ! i = WSend r" "\<not> output_closed s"
      "printer s = PSelect"
      "s' = s\<lparr>printer := PGot r, workers := (workers s)[i := WRecv]\<rparr>"
proof (cases "i < length (workers s)")
  case False
  then show ?thesis using assms by (simp add: worker_step_def)
next
  case True
  show ?thesis
  proof (cases "workers s ! i")
    case WRecv
    show ?thesis
    proof (cases "input s")
      case Nil
      have "input_closed s \<and> s' = s\<lparr>workers := (workers s)[i := WExit]\<rparr>"
        using assms True WRecv Nil by (simp add: worker_step_def split: if_splits)
      then show ?thesis using End True WRecv Nil by blast
    next
      case (Cons p q)
      have "s' = (maybeLog cfg (''Starting file '' @ p) s)\<lparr>input := q, workers := (workers s)[i := WRun p]\<rparr>"
        using assms True WRecv Cons by (simp add: worker_step_def)
      then show ?thesis using Recv True WRecv Cons by blast
    qed
  next
    case (WRun p)
    show ?thesis
    proof (cases "parts s")
      case Nil
      have "s' = s\<lparr>status := Panicked ''index out of range''\<rparr>"
        using assms True WRun Nil by (simp add: worker_step_def)
      then show ?thesis using RunPanic True WRun Nil by blast
    next
      case (Cons exe rest)
      then have ne: "parts s \<noteq> []" by simp
      show ?thesis
      proof (cases "length (parts s) < parts_cap s")
        case lt: True
        have "s' = s\<lparr>parts_spare := p,
               workers := (workers s)[i := WExec \<lparr>run_path = p, run_start = clock s,
                              cmdparts = Shared, out = [], run_err = None\<rparr>]\<rparr>"
          using assms True WRun Cons lt by (simp add: worker_step_def)
        then show ?thesis using RunShared True WRun ne lt by blast
      next
        case ge: False
        have "s' = s\<lparr>workers := (workers s)[i := WExec \<lparr>run_path = p, run_start = clock s,
                              cmdparts = Fresh (parts s @ [p]), out = [], run_err = None\<rparr>]\<rparr>"
          using assms True WRun Cons ge by (simp add: worker_step_def)
        then show ?thesis using RunFresh True WRun ne ge by blast
      qed
    qed
  next
    case (WExec f)
    obtain b e where be: "CombinedOutput env (hd (parts s)) (read_cmdparts s (cmdparts f)) = (b, e)"
      by (cases "CombinedOutput env (hd (parts s)) (read_cmdparts s (cmdparts f))") auto
    have "s' = s\<lparr>workers := (workers s)[i := WLock (f\<lparr>out := b, run_err := e\<rparr>)],
               ran := ran s @ [\<lparr>for_path = run_path f, cmd_Path = hd (parts s),
                                cmd_Args = read_cmdparts s (cmdparts f), cmd_err = e\<rparr>]\<rparr>"
      using assms True WExec be by (simp add: worker_step_def)
    then show ?thesis using Exec True WExec be by blast
  next
    case (WLock f)
    have "\<not> resultMtx s \<and> s' = s\<lparr>resultMtx := True, workers := (workers s)[i := WCount f]\<rparr>"
      using assms True WLock by (simp add: worker_step_def split: if_splits)
    then show ?thesis using Lock True WLock by blast
  next
    case (WCount f)
    show ?thesis
    proof (cases "run_err f = None")
      case ok: True
      have "s' = s\<lparr>success := success s + 1, workers := (workers s)[i := WUnlock f]\<rparr>"
        using assms True WCount ok by (simp add: worker_step_def)
      then show ?thesis using CountOk True WCount ok by blast
    next
      case bad: False
      have "s' = s\<lparr>fail := fail s + 1, workers := (workers s)[i := WUnlock f]\<rparr>"
        using assms True WCount bad by (simp add: worker_step_def)
      then show ?thesis using CountFail True WCount bad by blast
    qed
  next
    case (WUnlock f)
    have "s' = (maybeLog cfg (''Finished file '' @ run_path f) (s\<lparr>resultMtx := False\<rparr>))
               \<lparr>workers := (workers s)[i := WDefer (report (read_cmdparts s (cmdparts f)) (out f)
                                (DurationString env (clock s - run_start f)))]\<rparr>"
      using assms True WUnlock by (simp add: worker_step_def)
    then show ?thesis using Unlock True WUnlock by blast
  next
    case (WDefer r)
    show ?thesis
    proof (cases "wg s - 1 < 0")
      case neg: True
      have "s' = s\<lparr>status := Panicked ''sync: negative WaitGroup counter''\<rparr>"
        using assms True WDefer neg by (simp add: worker_step_def)
      then show ?thesis using DeferPanic True WDefer neg by blast
    next
      case pos: False
      have "s' = s\<lparr>wg := wg s - 1, workers := (workers s)[i := WSend r]\<rparr>"
        using assms True WDefer pos by (simp add: worker_step_def)
      then show ?thesis using Defer True WDefer pos by blast
    qed
  next
    case (WSend r)
    show ?thesis
    proof (cases "output_closed s")
      case closed: True
      have "s' = s\<lparr>status := Panicked ''send on closed channel''\<rparr>"
        using assms True WSend closed by (simp add: worker_step_def)
      then show ?thesis using SendPanic True WSend closed by blast
    next
      case opn: False
      have "printer s = PSelect \<and> s' = s\<lparr>printer := PGot r, workers := (workers s)[i := WRecv]\<rparr>"
        using assms True WSend opn by (simp add: worker_step_def split: if_splits)
      then show ?thesis using Send True WSend opn by blast
    qed
  next
    case WExit
    then show ?thesis using assms True by (simp add: worker_step_def)
  qed
qed

lemma printer_step_cases [consumes 1, case_names Closed Print Empty]:
  assumes "printer_step s = Some s'"
  obtains
    (Closed) "printer s = PSelect" "output_closed s" "s' = s\<lparr>printer := PGot []\<rparr>"
  | (Print) r where "printer s = PGot r" "TrimSpace r \<noteq> []"
      "s' = s\<lparr>stdout := stdout s @ nl @ TrimSpace r @ nl @ nl, printer := PSelect\<rparr>"
  | (Empty) r where "printer s = PGot r" "TrimSpace r = []" "s' = s\<lparr>printer := PSelect\<rparr>"
  using assms by (cases "printer s") (auto simp: printer_step_def split: if_splits)

lemma timeout_step_cases [consumes 1, case_names Timeout]:
  assumes "timeout_step s = Some s'"
  obtains "printer s = PSelect" "s' = s\<lparr>stdout := stdout s @ nl\<rparr>"
  using assms by (cases "printer s") (auto simp: timeout_step_def)

section \<open>The invariants hold in every run\<close>

lemma holds_le_total: "i < length ws \<Longrightarrow> holds (ws ! i) \<le> total holds ws"
  by (rule total_ge_nth) (rule holds_nonneg)

lemma sending_nonneg: "0 \<le> sending pc"
  by (cases pc) auto

lemma inv_pc_main: "main_step cfg env s = Some s' \<Longrightarrow> inv_pc cfg s \<Longrightarrow> inv_pc cfg s'"
  by (cases rule: main_step_cases) (auto simp: inv_pc_def maybeLog_fields)

lemma inv_pc_worker:
  assumes "worker_step cfg env i s = Some s'" and "inv_pc cfg s" and "inv_wg s"
  shows "inv_pc cfg s'"
  using assms(1)
proof (cases rule: worker_step_cases)
  case (Defer r)
  have "1 \<le> total holds (workers s)"
    using holds_le_total [of i "workers s"] Defer by simp
  then have pos: "0 < wg s"
    using assms(3) sending_nonneg [of "mainpc s"] by (simp add: inv_wg_def)
  show ?thesis using assms(2) Defer pos by (cases "mainpc s") (simp_all add: inv_pc_def)
qed (use assms(2) in \<open>auto simp: inv_pc_def maybeLog_fields cong: mpc.case_cong\<close>)

lemma inv_pc_printer: "printer_step s = Some s' \<Longrightarrow> inv_pc cfg s \<Longrightarrow> inv_pc cfg s'"
  by (cases rule: printer_step_cases) (auto simp: inv_pc_def cong: mpc.case_cong)

lemma inv_pc_timeout: "timeout_step s = Some s' \<Longrightarrow> inv_pc cfg s \<Longrightarrow> inv_pc cfg s'"
  by (cases rule: timeout_step_cases) (auto simp: inv_pc_def cong: mpc.case_cong)

lemma inv_wg_main: "main_step cfg env s = Some s' \<Longrightarrow> inv_pc cfg s \<Longrightarrow> inv_wg s \<Longrightarrow> inv_wg s'"
  by (cases rule: main_step_cases)
     (auto simp: inv_wg_def inv_pc_def maybeLog_fields total_replicate total_Nil)

lemma inv_wg_worker: "worker_step cfg env i s = Some s' \<Longrightarrow> inv_wg s \<Longrightarrow> inv_wg s'"
  by (cases rule: worker_step_cases)
     (auto simp: inv_wg_def maybeLog_fields total_update)

lemma inv_wg_printer: "printer_step s = Some s' \<Longrightarrow> inv_wg s \<Longrightarrow> inv_wg s'"
  by (cases rule: printer_step_cases) (auto simp: inv_wg_def)

lemma inv_wg_timeout: "timeout_step s = Some s' \<Longrightarrow> inv_wg s \<Longrightarrow> inv_wg s'"
  by (cases rule: timeout_step_cases) (auto simp: inv_wg_def)

lemma inv_sent_main: "main_step cfg env s = Some s' \<Longrightarrow> inv_pc cfg s \<Longrightarrow> inv_sent s \<Longrightarrow> inv_sent s'"
  by (cases rule: main_step_cases)
     (auto simp: inv_sent_def inv_pc_def maybeLog_fields total_replicate total_Nil)

lemma inv_sent_worker: "worker_step cfg env i s = Some s' \<Longrightarrow> inv_sent s \<Longrightarrow> inv_sent s'"
  by (cases rule: worker_step_cases)
     (auto simp: inv_sent_def maybeLog_fields total_update)

lemma inv_sent_printer: "printer_step s = Some s' \<Longrightarrow> inv_sent s \<Longrightarrow> inv_sent s'"
  by (cases rule: printer_step_cases) (auto simp: inv_sent_def)

lemma inv_sent_timeout: "timeout_step s = Some s' \<Longrightarrow> inv_sent s \<Longrightarrow> inv_sent s'"
  by (cases rule: timeout_step_cases) (auto simp: inv_sent_def)

lemma inv_tally_main: "main_step cfg env s = Some s' \<Longrightarrow> inv_pc cfg s \<Longrightarrow> inv_tally s \<Longrightarrow> inv_tally s'"
  by (cases rule: main_step_cases)
     (auto simp: inv_tally_def inv_pc_def maybeLog_fields total_replicate total_Nil)

lemma inv_tally_worker: "worker_step cfg env i s = Some s' \<Longrightarrow> inv_tally s \<Longrightarrow> inv_tally s'"
  by (cases rule: worker_step_cases)
     (auto simp: inv_tally_def maybeLog_fields total_update b2i_def)

lemma inv_tally_printer: "printer_step s = Some s' \<Longrightarrow> inv_tally s \<Longrightarrow> inv_tally s'"
  by (cases rule: printer_step_cases) (auto simp: inv_tally_def)

lemma inv_tally_timeout: "timeout_step s = Some s' \<Longrightarrow> inv_tally s \<Longrightarrow> inv_tally s'"
  by (cases rule: timeout_step_cases) (auto simp: inv_tally_def)

lemma inv_mtx_main: "main_step cfg env s = Some s' \<Longrightarrow> inv_pc cfg s \<Longrightarrow> inv_mtx s \<Longrightarrow> inv_mtx s'"
  by (cases rule: main_step_cases)
     (auto simp: inv_mtx_def inv_pc_def maybeLog_fields total_replicate total_Nil)

lemma crit_le_total: "i < length ws \<Longrightarrow> crit (ws ! i) \<le> total crit ws"
  by (rule total_ge_nth) (rule crit_nonneg)

lemma inv_mtx_worker:
  assumes "worker_step cfg env i s = Some s'" and "inv_mtx s"
  shows "inv_mtx s'"
  using assms(1)
proof (cases rule: worker_step_cases)
  case (Unlock f)
  have "1 \<le> total crit (workers s)"
    using crit_le_total [of i "workers s"] Unlock by simp
  then have "total crit (workers s) = 1"
    using assms(2) by (simp add: inv_mtx_def b2i_def split: if_splits)
  then show ?thesis using Unlock by (simp add: inv_mtx_def maybeLog_fields total_update b2i_def)
qed (use assms(2) in \<open>auto simp: inv_mtx_def maybeLog_fields total_update b2i_def\<close>)

lemma inv_mtx_printer: "printer_step s = Some s' \<Longrightarrow> inv_mtx s \<Longrightarrow> inv_mtx s'"
  by (cases rule: printer_step_cases) (auto simp: inv_mtx_def)

lemma inv_mtx_timeout: "timeout_step s = Some s' \<Longrightarrow> inv_mtx s \<Longrightarrow> inv_mtx s'"
  by (cases rule: timeout_step_cases) (auto simp: inv_mtx_def)

lemma inv_files_main: "main_step cfg env s = Some s' \<Longrightarrow> inv_pc cfg s \<Longrightarrow> inv_files s \<Longrightarrow> inv_files s'"
  by (cases rule: main_step_cases)
     (auto simp: inv_files_def inv_pc_def maybeLog_fields)

lemma inv_files_worker: "worker_step cfg env i s = Some s' \<Longrightarrow> inv_files s \<Longrightarrow> inv_files s'"
  by (cases rule: worker_step_cases)
     (auto simp: inv_files_def maybeLog_fields)

lemma inv_files_printer: "printer_step s = Some s' \<Longrightarrow> inv_files s \<Longrightarrow> inv_files s'"
  by (cases rule: printer_step_cases) (auto simp: inv_files_def)

lemma inv_files_timeout: "timeout_step s = Some s' \<Longrightarrow> inv_files s \<Longrightarrow> inv_files s'"
  by (cases rule: timeout_step_cases) (auto simp: inv_files_def)

lemma inv_pc_parts:
  assumes "inv_pc cfg s" and "i < length (workers s)"
  shows "parts s = Split (command cfg)"
  using assms by (cases "mainpc s") (auto simp: inv_pc_def)

lemma inv_exit_main:
  assumes "main_step cfg env s = Some s'" and "status s = Running" and "inv_pc cfg s"
  shows "inv_exit cfg env s'"
  using assms(1)
  by (cases rule: main_step_cases)
     (use assms(2,3) in \<open>auto simp: inv_exit_def inv_pc_def maybeLog_fields\<close>)

lemma inv_exit_worker:
  assumes "worker_step cfg env i s = Some s'" and "status s = Running"
    and "inv_pc cfg s" and "inv_wg s"
  shows "inv_exit cfg env s'"
  using assms(1)
proof (cases rule: worker_step_cases)
  case (RunPanic p)
  then show ?thesis using inv_pc_parts [OF assms(3)] Split_not_Nil [of "command cfg"] by simp
next
  case (DeferPanic r)
  have "1 \<le> total holds (workers s)"
    using holds_le_total [of i "workers s"] DeferPanic by simp
  then have "0 < wg s"
    using assms(4) sending_nonneg [of "mainpc s"] by (simp add: inv_wg_def)
  then show ?thesis using DeferPanic by simp
qed (use assms(2) in \<open>auto simp: inv_exit_def maybeLog_fields\<close>)

lemma inv_exit_printer:
  "printer_step s = Some s' \<Longrightarrow> status s = Running \<Longrightarrow> inv_exit cfg env s'"
  by (cases rule: printer_step_cases) (auto simp: inv_exit_def)

lemma inv_exit_timeout:
  "timeout_step s = Some s' \<Longrightarrow> status s = Running \<Longrightarrow> inv_exit cfg env s'"
  by (cases rule: timeout_step_cases) (auto simp: inv_exit_def)

lemma inv_ran_main: "main_step cfg env s = Some s' \<Longrightarrow> inv_ran cfg env s \<Longrightarrow> inv_ran cfg env s'"
  by (cases rule: main_step_cases) (auto simp: inv_ran_def maybeLog_fields)

lemma inv_ran_worker:
  assumes "worker_step cfg env i s = Some s'" and "inv_ran cfg env s" and "inv_pc cfg s"
  shows "inv_ran cfg env s'"
  using assms(1)
proof (cases rule: worker_step_cases)
  case (Exec f b e)
  then show ?thesis using assms(2) inv_pc_parts [OF assms(3)]
    by (simp add: inv_ran_def)
qed (use assms(2) in \<open>auto simp: inv_ran_def maybeLog_fields\<close>)

lemma inv_ran_printer: "printer_step s = Some s' \<Longrightarrow> inv_ran cfg env s \<Longrightarrow> inv_ran cfg env s'"
  by (cases rule: printer_step_cases) (auto simp: inv_ran_def)

lemma inv_ran_timeout: "timeout_step s = Some s' \<Longrightarrow> inv_ran cfg env s \<Longrightarrow> inv_ran cfg env s'"
  by (cases rule: timeout_step_cases) (auto simp: inv_ran_def)

lemma inv_cfg_main: "main_step cfg env s = Some s' \<Longrightarrow> inv_cfg cfg env s \<Longrightarrow> inv_cfg cfg env s'"
  by (cases rule: main_step_cases) (auto simp: inv_cfg_def maybeLog_fields)

lemma inv_cfg_worker: "worker_step cfg env i s = Some s' \<Longrightarrow> inv_cfg cfg env s \<Longrightarrow> inv_cfg cfg env s'"
  by (cases rule: worker_step_cases) (auto simp: inv_cfg_def maybeLog_fields)

lemma inv_cfg_printer: "printer_step s = Some s' \<Longrightarrow> inv_cfg cfg env s \<Longrightarrow> inv_cfg cfg env s'"
  by (cases rule: printer_step_cases) (auto simp: inv_cfg_def)

lemma inv_cfg_timeout: "timeout_step s = Some s' \<Longrightarrow> inv_cfg cfg env s \<Longrightarrow> inv_cfg cfg env s'"
  by (cases rule: timeout_step_cases) (auto simp: inv_cfg_def)

lemma inv_all_init: "inv_all cfg env init"
  by (simp add: inv_all_def inv_pc_def inv_wg_def inv_sent_def inv_tally_def inv_mtx_def
        inv_files_def inv_exit_def inv_ran_def inv_cfg_def init_def total_Nil b2i_def)

lemma inv_all_step:
  assumes "step cfg env ev s = Some s'" and "inv_all cfg env s"
  shows "inv_all cfg env s'"
proof -
  have run: "status s = Running" using assms(1) by (simp add: step_def split: if_splits)
  have pc: "inv_pc cfg s" and wg: "inv_wg s" and sn: "inv_sent s" and ta: "inv_tally s"
    and mt: "inv_mtx s" and fi: "inv_files s" and ra: "inv_ran cfg env s"
    and cf: "inv_cfg cfg env s"
    using assms(2) by (simp_all add: inv_all_def)
  show ?thesis
  proof (cases ev)
    case Main
    then have st: "main_step cfg env s = Some s'" using assms(1) run by (simp add: step_def)
    show ?thesis
      unfolding inv_all_def
      using inv_pc_main [OF st pc] inv_wg_main [OF st pc wg] inv_sent_main [OF st pc sn]
        inv_tally_main [OF st pc ta] inv_mtx_main [OF st pc mt] inv_files_main [OF st pc fi]
        inv_exit_main [OF st run pc] inv_ran_main [OF st ra]
        inv_cfg_main [OF st cf]
      by blast
  next
    case (Worker i)
    then have st: "worker_step cfg env i s = Some s'" using assms(1) run by (simp add: step_def)
    show ?thesis
      unfolding inv_all_def
      using inv_pc_worker [OF st pc wg] inv_wg_worker [OF st wg] inv_sent_worker [OF st sn]
        inv_tally_worker [OF st ta] inv_mtx_worker [OF st mt] inv_files_worker [OF st fi]
        inv_exit_worker [OF st run pc wg] inv_ran_worker [OF st ra pc]
        inv_cfg_worker [OF st cf]
      by blast
  next
    case Printer
    then have st: "printer_step s = Some s'" using assms(1) run by (simp add: step_def)
    show ?thesis
      unfolding inv_all_def
      using inv_pc_printer [OF st pc] inv_wg_printer [OF st wg] inv_sent_printer [OF st sn]
        inv_tally_printer [OF st ta] inv_mtx_printer [OF st mt] inv_files_printer [OF st fi]
        inv_exit_printer [OF st run] inv_ran_printer [OF st ra]
        inv_cfg_printer [OF st cf]
      by blast
  next
    case Timeout
    then have st: "timeout_step s = Some s'" using assms(1) run by (simp add: step_def)
    show ?thesis
      unfolding inv_all_def
      using inv_pc_timeout [OF st pc] inv_wg_timeout [OF st wg] inv_sent_timeout [OF st sn]
        inv_tally_timeout [OF st ta] inv_mtx_timeout [OF st mt] inv_files_timeout [OF st fi]
        inv_exit_timeout [OF st run] inv_ran_timeout [OF st ra]
        inv_cfg_timeout [OF st cf]
      by blast
  next
    case (Advance d)
    then have s': "s' = s\<lparr>clock := clock s + d\<rparr>" using assms(1) run by (simp add: step_def)
    have "inv_pc cfg s'" using pc unfolding s' by (cases "mainpc s") (simp_all add: inv_pc_def)
    moreover have "inv_exit cfg env s'" using run unfolding s' by (simp add: inv_exit_def)
    ultimately show ?thesis using wg sn ta mt fi ra cf unfolding s'
      by (simp add: inv_all_def inv_wg_def inv_sent_def inv_tally_def inv_mtx_def
            inv_files_def inv_ran_def inv_cfg_def)
  qed
qed

lemma inv_all_exec:
  "exec cfg env evs s = Some s' \<Longrightarrow> inv_all cfg env s \<Longrightarrow> inv_all cfg env s'"
proof (induction evs arbitrary: s)
  case Nil
  then show ?case by simp
next
  case (Cons ev evs)
  then show ?case by (auto split: option.splits dest: inv_all_step)
qed

lemma inv_all_reach: "exec cfg env evs init = Some s \<Longrightarrow> inv_all cfg env s"
  using inv_all_exec inv_all_init by blast

section \<open>Concrete runs\<close>

lemma replicate_two: "replicate 2 x = [x, x]"
  by (simp add: numeral_2_eq_2)

lemmas trim_defs = TrimSpace_def TrimLeftSpace_def TrimRightSpace_def strip.simps space_runes_def

lemmas eval_defs = replicate_two init_def step_def main_step_def worker_step_def printer_step_def
  timeout_step_def walkFn_def maybeLog_def Split_def Split_loop_def slice_def isSpaceRE_def
  input_cap_def read_cmdparts_def

lemmas demo_defs = demo_cfg_def demo_env_def demo_schedule_def demo_walk_def demo_matcher_def

lemma demo_run:
  "\<exists>s. exec demo_cfg demo_env demo_schedule init = Some s
       \<and> status s = Exited 1 \<and> mainpc s = MExit \<and> success s = 1 \<and> fail s = 1
       \<and> sent s = [''t/aT'', ''t/cT'']
       \<and> map cmd_err (ran s) = [None, Some ''exit status 1'']"
  by (simp add: demo_defs eval_defs)

section \<open>The state once the wait group is at zero\<close>

lemma past_wait_wg: "inv_pc cfg s \<Longrightarrow> past_wait (mainpc s) \<Longrightarrow> wg s = 0"
  by (cases "mainpc s") (auto simp: inv_pc_def)

lemma drained:
  assumes "inv_wg s" and "wg s = 0"
  shows "input s = []" and "total holds (workers s) = 0" and "sending (mainpc s) = 0"
proof -
  have a: "0 \<le> total holds (workers s)" by (rule total_nonneg) (rule holds_nonneg)
  have b: "0 \<le> sending (mainpc s)" by (rule sending_nonneg)
  have c: "int (length (input s)) + total holds (workers s) + sending (mainpc s) = 0"
    using assms by (simp add: inv_wg_def)
  have "length (input s) = 0" using a b c by linarith
  then show "input s = []" by simp
  show "total holds (workers s) = 0" using a b c by linarith
  show "sending (mainpc s) = 0" using a b c by linarith
qed

lemma total_zero_below:
  assumes "\<And>w. 0 \<le> f w" and "\<And>w. f w \<le> g w" and "total g ws = 0"
  shows "total f ws = 0"
proof -
  have "total f ws \<le> total g ws" using assms(2) by (rule total_mono)
  moreover have "0 \<le> total f ws" using assms(1) by (rule total_nonneg)
  ultimately show ?thesis using assms(3) by simp
qed

lemma drained_tally:
  assumes "inv_all cfg env s" and "wg s = 0"
  shows "fail s = int (length (filter (\<lambda>r. cmd_err r \<noteq> None) (ran s)))"
    and "success s = int (length (filter (\<lambda>r. cmd_err r = None) (ran s)))"
    and "length (ran s) = length (sent s)"
proof -
  have wg: "inv_wg s" and ta: "inv_tally s" and sn: "inv_sent s"
    using assms(1) by (simp_all add: inv_all_def)
  have h: "total holds (workers s) = 0" and i: "input s = []"
    using drained [OF wg assms(2)] by simp_all
  have f: "total failing (workers s) = 0"
    using failing_nonneg failing_le_holds h by (rule total_zero_below)
  have p: "total passing (workers s) = 0"
    using passing_nonneg passing_le_holds h by (rule total_zero_below)
  have u: "total unran (workers s) = 0"
    using unran_nonneg unran_le_holds h by (rule total_zero_below)
  show "fail s = int (length (filter (\<lambda>r. cmd_err r \<noteq> None) (ran s)))"
    using ta f by (simp add: inv_tally_def)
  show "success s = int (length (filter (\<lambda>r. cmd_err r = None) (ran s)))"
    using ta p by (simp add: inv_tally_def)
  show "length (ran s) = length (sent s)"
    using sn u i by (simp add: inv_sent_def)
qed

lemma exited_cases:
  assumes "inv_all cfg env s" and "status s = Exited c"
  shows "(mainpc s = MStart \<and> command cfg = [] \<and> c = 1)
       \<or> (mainpc s = MCompile \<and> command cfg \<noteq> [] \<and> isl (Compile env (pattern cfg)) \<and> c = 1)
       \<or> (mainpc s = MExit \<and> command cfg \<noteq> [] \<and> \<not> isl (Compile env (pattern cfg))
            \<and> c = (if fail s > 0 then 1 else 0))"
proof -
  have "inv_exit cfg env s" and "inv_cfg cfg env s" using assms(1) by (simp_all add: inv_all_def)
  then show ?thesis using assms(2) by (auto simp: inv_exit_def inv_cfg_def)
qed

lemma before_walk_ran:
  assumes "inv_all cfg env s" and "before_walk (mainpc s)"
  shows "ran s = []"
proof -
  have "sent s = []" using assms by (cases "mainpc s") (auto simp: inv_all_def inv_pc_def)
  moreover have "inv_sent s" using assms(1) by (simp add: inv_all_def)
  moreover have "0 \<le> total unran (workers s)" by (rule total_nonneg) (rule unran_nonneg)
  ultimately have "int (length (ran s)) + int (length (input s)) + total unran (workers s) = 0"
    and "0 \<le> total unran (workers s)"
    by (simp_all add: inv_sent_def)
  then have "length (ran s) = 0" by linarith
  then show ?thesis by simp
qed

lemma filter_nonempty_iff: "(0 < int (length (filter P xs))) = (\<exists>x\<in>set xs. P x)"
  by (simp add: filter_empty_conv)

section \<open>The exit status\<close>

text \<open>
  What holds of the exit status. In every run, under every schedule, in which the process
  has exited through \<^verbatim>\<open>main\<close> (by \<^verbatim>\<open>os.Exit\<close> or by the return from \<^verbatim>\<open>main\<close>), the exit
  status is 0 or 1, and it is 1 exactly when no command is specified, or the pattern fails
  to compile, or at least one of the commands that were run returned an error. When the
  run has reached the end of \<^verbatim>\<open>main\<close> (line 285), the failure counter is the number of
  commands that returned an error, and the exit status is 0 if and only if the failure
  counter is 0.
\<close>

lemma exit_status_through_main:
  assumes "exec cfg env evs init = Some s" and "status s = Exited c"
  shows "(c = 0 \<or> c = 1)
       \<and> ((c = 1) = (command cfg = [] \<or> isl (Compile env (pattern cfg))
                      \<or> (\<exists>r\<in>set (ran s). cmd_err r \<noteq> None)))
       \<and> (mainpc s = MExit \<longrightarrow>
             fail s = int (length (filter (\<lambda>r. cmd_err r \<noteq> None) (ran s)))
           \<and> ((c = 0) = (fail s = 0)))"
proof -
  have inv: "inv_all cfg env s" using assms(1) by (rule inv_all_reach)
  consider
      (nocmd) "mainpc s = MStart" "command cfg = []" "c = 1"
    | (badpat) "mainpc s = MCompile" "command cfg \<noteq> []" "isl (Compile env (pattern cfg))" "c = 1"
    | (finished) "mainpc s = MExit" "command cfg \<noteq> []" "\<not> isl (Compile env (pattern cfg))"
        "c = (if fail s > 0 then 1 else 0)"
    using exited_cases [OF inv assms(2)] by blast
  then show ?thesis
  proof cases
    case nocmd
    then show ?thesis by simp
  next
    case badpat
    then show ?thesis by simp
  next
    case finished
    have "wg s = 0" using inv finished(1) past_wait_wg [of cfg s] by (simp add: inv_all_def)
    then have f: "fail s = int (length (filter (\<lambda>r. cmd_err r \<noteq> None) (ran s)))"
      using drained_tally(1) [OF inv] by simp
    have g: "(0 < fail s) = (\<exists>r\<in>set (ran s). cmd_err r \<noteq> None)"
      unfolding f by (rule filter_nonempty_iff)
    have h: "0 \<le> fail s" unfolding f by simp
    show ?thesis using finished f g h by auto
  qed
qed

lemma exit_status_through_main_instance:
  "\<exists>s. exec demo_cfg demo_env demo_schedule init = Some s \<and> status s = Exited 1
     \<and> mainpc s = MExit \<and> fail s = 1
     \<and> (\<exists>r\<in>set (ran s). cmd_err r \<noteq> None)"
proof -
  obtain s where e: "exec demo_cfg demo_env demo_schedule init = Some s"
    and x: "status s = Exited 1" and m: "mainpc s = MExit" and f: "fail s = 1"
    using demo_run by blast
  have c: "command demo_cfg \<noteq> []" and p: "\<not> isl (Compile demo_env (pattern demo_cfg))"
    by (simp_all add: demo_cfg_def demo_env_def)
  show ?thesis
    using exit_status_through_main [OF e x] e x m f c p by auto
qed

text \<open>
  C1, at a failing schedule. Two test files, two workers, and a command that succeeds on
  both files. Both workers count their success and run the deferred \<^verbatim>\<open>wg.Done()\<close> of
  line 188; \<^verbatim>\<open>main\<close> gets through \<^verbatim>\<open>wg.Wait()\<close> and closes both channels (lines 279 to
  281), so the run has reached its last state with a failure counter of 0. Worker 0 then
  runs its send of line 182, on the closed channel: the panic ends the process, and its
  exit status is 2, not 0.
\<close>

theorem exit_status_two_without_failure:
  "map_option mainpc (exec demo_cfg ok_env (early_done_schedule @ [Worker 0]) init) = Some MSummary
 \<and> map_option input_closed (exec demo_cfg ok_env (early_done_schedule @ [Worker 0]) init) = Some True
 \<and> map_option output_closed (exec demo_cfg ok_env (early_done_schedule @ [Worker 0]) init) = Some True
 \<and> map_option (map cmd_err) (map_option ran (exec demo_cfg ok_env (early_done_schedule @ [Worker 0]) init))
      = Some [None, None]
 \<and> map_option success (exec demo_cfg ok_env (early_done_schedule @ [Worker 0]) init) = Some 2
 \<and> map_option fail (exec demo_cfg ok_env (early_done_schedule @ [Worker 0]) init) = Some 0
 \<and> map_option status (exec demo_cfg ok_env (early_done_schedule @ [Worker 0]) init)
      = Some (Panicked ''send on closed channel'')
 \<and> map_option exit_status (map_option status (exec demo_cfg ok_env (early_done_schedule @ [Worker 0]) init))
      = Some (Some 2)"
  by (simp add: demo_defs ok_env_def early_done_schedule_def eval_defs)

section \<open>The counters\<close>

lemma crit_pair_le_total:
  assumes "i < length ws" and "j < length ws" and "i \<noteq> j"
  shows "crit (ws ! i) + crit (ws ! j) \<le> total crit ws"
proof -
  have "total crit (ws[i := WRecv]) = total crit ws - crit (ws ! i)"
    using total_update [OF assms(1), of crit WRecv] by simp
  moreover have "crit ((ws[i := WRecv]) ! j) \<le> total crit (ws[i := WRecv])"
    using assms(2) by (intro total_ge_nth crit_nonneg) simp
  moreover have "(ws[i := WRecv]) ! j = ws ! j" using assms(3) by simp
  ultimately show ?thesis by simp
qed

lemma count_needs_lock:
  assumes "inv_mtx s" and "i < length (workers s)" and "crit (workers s ! i) = 1"
  shows "resultMtx s"
proof -
  have "1 \<le> total crit (workers s)" using crit_le_total [OF assms(2)] assms(3) by simp
  then show ?thesis using assms(1) by (simp add: inv_mtx_def b2i_def split: if_splits)
qed

lemma counters_step:
  assumes "step cfg env ev s = Some s'" and "inv_mtx s"
  shows "(success s' = success s \<and> fail s' = fail s)
       \<or> (resultMtx s \<and> (\<exists>i f. ev = Worker i \<and> i < length (workers s)
              \<and> workers s ! i = WCount f \<and> workers s' ! i = WUnlock f
              \<and> ((run_err f \<noteq> None \<and> fail s' = fail s + 1 \<and> success s' = success s)
                 \<or> (run_err f = None \<and> success s' = success s + 1 \<and> fail s' = fail s))))"
proof -
  have run: "status s = Running" using assms(1) by (simp add: step_def split: if_splits)
  show ?thesis
  proof (cases ev)
    case Main
    then have "main_step cfg env s = Some s'" using assms(1) run by (simp add: step_def)
    then show ?thesis by (cases rule: main_step_cases) (simp_all add: maybeLog_fields)
  next
    case (Worker i)
    then have "worker_step cfg env i s = Some s'" using assms(1) run by (simp add: step_def)
    then show ?thesis
    proof (cases rule: worker_step_cases)
      case (CountFail f)
      then have "resultMtx s" using count_needs_lock [OF assms(2), of i] by simp
      then show ?thesis using CountFail Worker by simp
    next
      case (CountOk f)
      then have "resultMtx s" using count_needs_lock [OF assms(2), of i] by simp
      then show ?thesis using CountOk Worker by simp
    qed (simp_all add: maybeLog_fields)
  next
    case Printer
    then have "printer_step s = Some s'" using assms(1) run by (simp add: step_def)
    then show ?thesis by (cases rule: printer_step_cases) simp_all
  next
    case Timeout
    then have "timeout_step s = Some s'" using assms(1) run by (simp add: step_def)
    then show ?thesis by (cases rule: timeout_step_cases) simp_all
  next
    case (Advance d)
    then show ?thesis using assms(1) run by (auto simp: step_def)
  qed
qed

text \<open>
  C2. In every run, under every schedule: once \<^verbatim>\<open>wg.Wait()\<close> has returned (the draining
  is complete), the success counter plus the failure counter is the number of filenames
  that were sent on the input channel; every one of them has had its command run, the
  success counter is the number of commands that returned no error and the failure counter
  the number of those that returned one. At every step of any goroutine the two counters
  stay as they are, or the step is line 200 or line 202 of a worker that holds the lock,
  and adds one to exactly one of the two counters, after which that worker is past the
  \<^verbatim>\<open>if\<close>. No two workers are between \<^verbatim>\<open>Lock\<close> and \<^verbatim>\<open>Unlock\<close> at the same time.
\<close>

theorem counters_sum_to_dispatched:
  assumes "exec cfg env evs init = Some s"
  shows "(past_wait (mainpc s) \<longrightarrow>
            success s + fail s = int (length (sent s))
          \<and> length (ran s) = length (sent s)
          \<and> success s = int (length (filter (\<lambda>r. cmd_err r = None) (ran s)))
          \<and> fail s = int (length (filter (\<lambda>r. cmd_err r \<noteq> None) (ran s))))
       \<and> (\<forall>ev s'. step cfg env ev s = Some s' \<longrightarrow>
             (success s' = success s \<and> fail s' = fail s)
           \<or> (resultMtx s \<and> (\<exists>i f. ev = Worker i \<and> i < length (workers s)
                  \<and> workers s ! i = WCount f \<and> workers s' ! i = WUnlock f
                  \<and> ((run_err f \<noteq> None \<and> fail s' = fail s + 1 \<and> success s' = success s)
                     \<or> (run_err f = None \<and> success s' = success s + 1 \<and> fail s' = fail s)))))
       \<and> (\<forall>i j. i < length (workers s) \<and> j < length (workers s)
                \<and> crit (workers s ! i) = 1 \<and> crit (workers s ! j) = 1 \<longrightarrow> i = j)"
proof (intro conjI impI allI)
  have inv: "inv_all cfg env s" using assms by (rule inv_all_reach)
  then have mt: "inv_mtx s" by (simp add: inv_all_def)
  {
    assume pw: "past_wait (mainpc s)"
    have z: "wg s = 0" using inv pw past_wait_wg [of cfg s] by (simp add: inv_all_def)
    show r: "length (ran s) = length (sent s)" using drained_tally(3) [OF inv z] .
    show a: "success s = int (length (filter (\<lambda>r. cmd_err r = None) (ran s)))"
      using drained_tally(2) [OF inv z] .
    show b: "fail s = int (length (filter (\<lambda>r. cmd_err r \<noteq> None) (ran s)))"
      using drained_tally(1) [OF inv z] .
    have "length (filter (\<lambda>r. cmd_err r = None) (ran s))
            + length (filter (\<lambda>r. \<not> cmd_err r = None) (ran s)) = length (ran s)"
      by (rule sum_length_filter_compl)
    then show "success s + fail s = int (length (sent s))" using a b r by simp
  }
  {
    fix ev s'
    assume "step cfg env ev s = Some s'"
    then show "(success s' = success s \<and> fail s' = fail s)
       \<or> (resultMtx s \<and> (\<exists>i f. ev = Worker i \<and> i < length (workers s)
              \<and> workers s ! i = WCount f \<and> workers s' ! i = WUnlock f
              \<and> ((run_err f \<noteq> None \<and> fail s' = fail s + 1 \<and> success s' = success s)
                 \<or> (run_err f = None \<and> success s' = success s + 1 \<and> fail s' = fail s))))"
      using mt by (rule counters_step)
  }
  {
    fix i j
    assume h: "i < length (workers s) \<and> j < length (workers s)
                \<and> crit (workers s ! i) = 1 \<and> crit (workers s ! j) = 1"
    show "i = j"
    proof (rule ccontr)
      assume "i \<noteq> j"
      then have "crit (workers s ! i) + crit (workers s ! j) \<le> total crit (workers s)"
        using h crit_pair_le_total by blast
      then show False using h mt by (simp add: inv_mtx_def b2i_def split: if_splits)
    qed
  }
qed

theorem counters_sum_to_dispatched_witness:
  "\<exists>s. exec demo_cfg demo_env demo_schedule init = Some s \<and> past_wait (mainpc s)
     \<and> success s + fail s = int (length (sent s)) \<and> length (sent s) = 2"
proof -
  obtain s where e: "exec demo_cfg demo_env demo_schedule init = Some s"
    and m: "mainpc s = MExit" and t: "sent s = [''t/aT'', ''t/cT'']"
    using demo_run by blast
  have p: "past_wait (mainpc s)" using m by simp
  have c: "success s + fail s = int (length (sent s))"
    using counters_sum_to_dispatched [OF e] p by simp
  have "exec demo_cfg demo_env demo_schedule init = Some s \<and> past_wait (mainpc s)
     \<and> success s + fail s = int (length (sent s)) \<and> length (sent s) = 2"
    using e p c t by simp
  then show ?thesis by (rule exI)
qed

section \<open>The dispatch\<close>

text \<open>
  C3. In every run, under every schedule, whatever the walk yields, the filenames sent on
  the input channel are pairwise different: no path is dispatched more than once, also
  when the walk yields the same path several times. Each of them is in the map \<^verbatim>\<open>files\<close>.
\<close>

theorem no_path_dispatched_twice:
  assumes "exec cfg env evs init = Some s"
  shows "distinct (sent s) \<and> (before_walk (mainpc s) \<or> set (sent s) \<subseteq> files s)"
proof -
  have "inv_all cfg env s" using assms by (rule inv_all_reach)
  then have "inv_files s" by (simp add: inv_all_def)
  then show ?thesis by (auto simp: inv_files_def)
qed

theorem no_path_dispatched_twice_witness:
  "\<exists>s. exec demo_cfg demo_env demo_schedule init = Some s
     \<and> map path (Walk demo_env (root demo_cfg)) = [''t'', ''t/aT'', ''t/b'', ''t/aT'', ''t/cT'']
     \<and> sent s = [''t/aT'', ''t/cT''] \<and> distinct (sent s)"
proof -
  obtain s where e: "exec demo_cfg demo_env demo_schedule init = Some s"
    and t: "sent s = [''t/aT'', ''t/cT'']"
    using demo_run by blast
  have w: "map path (Walk demo_env (root demo_cfg)) = [''t'', ''t/aT'', ''t/b'', ''t/aT'', ''t/cT'']"
    by (simp add: demo_env_def demo_walk_def)
  have d: "distinct (sent s)" using no_path_dispatched_twice [OF e] by simp
  have "exec demo_cfg demo_env demo_schedule init = Some s
     \<and> map path (Walk demo_env (root demo_cfg)) = [''t'', ''t/aT'', ''t/b'', ''t/aT'', ''t/cT'']
     \<and> sent s = [''t/aT'', ''t/cT''] \<and> distinct (sent s)"
    using e w t d by simp
  then show ?thesis by (rule exI)
qed

section \<open>The wait group and the reports\<close>

lemma wg_zero_drained:
  assumes "exec cfg env evs init = Some s"
  shows "0 \<le> wg s"
    and "wg s = 0 \<Longrightarrow> input s = [] \<and> (\<forall>i<length (workers s). holds (workers s ! i) = 0)"
proof -
  have "inv_all cfg env s" using assms by (rule inv_all_reach)
  then have w: "inv_wg s" by (simp add: inv_all_def)
  have a: "0 \<le> total holds (workers s)" by (rule total_nonneg) (rule holds_nonneg)
  show "0 \<le> wg s" using w a sending_nonneg [of "mainpc s"] by (simp add: inv_wg_def)
  assume z: "wg s = 0"
  have t: "total holds (workers s) = 0" using drained(2) [OF w z] .
  have "\<forall>i<length (workers s). holds (workers s ! i) = 0"
  proof (intro allI impI)
    fix i assume "i < length (workers s)"
    then have "holds (workers s ! i) \<le> 0" using holds_le_total [of i "workers s"] t by simp
    then show "holds (workers s ! i) = 0" using holds_nonneg [of "workers s ! i"] by simp
  qed
  then show "input s = [] \<and> (\<forall>i<length (workers s). holds (workers s ! i) = 0)"
    using drained(1) [OF w z] by simp
qed

text \<open>
  C4, at a failing schedule. Two test files, two workers. Each worker runs its command,
  counts it, and runs the deferred \<^verbatim>\<open>wg.Done()\<close> of line 188 on its way out of \<^verbatim>\<open>run\<close>,
  which is before the send of line 182. The wait group is then at zero while both reports
  are still with the workers and nothing of them is on standard output; \<^verbatim>\<open>main\<close> gets
  through \<^verbatim>\<open>wg.Wait()\<close> and closes both channels. From there, a step of worker 0 is a
  send on a closed channel, which panics; and two more steps of \<^verbatim>\<open>main\<close> end the process
  with the summary and without either report.
\<close>

theorem wait_group_zero_before_reports_sent:
  "map_option wg (exec demo_cfg demo_env early_done_schedule init) = Some 0
 \<and> map_option input (exec demo_cfg demo_env early_done_schedule init) = Some []
 \<and> map_option mainpc (exec demo_cfg demo_env early_done_schedule init) = Some MSummary
 \<and> map_option output_closed (exec demo_cfg demo_env early_done_schedule init) = Some True
 \<and> map_option workers (exec demo_cfg demo_env early_done_schedule init)
      = Some [WSend (''Running php run t/aT'' @ nl @ nl @ ''ok'' @ nl @ nl @ ''Elapsed: 0s'' @ nl),
              WSend (''Running php run t/cT'' @ nl @ nl @ ''boom'' @ nl @ nl @ ''Elapsed: 0s'' @ nl)]
 \<and> map_option stdout (exec demo_cfg demo_env early_done_schedule init)
      = Some (''Starting 2 threads'' @ nl @ nl)
 \<and> map_option status (exec demo_cfg demo_env (early_done_schedule @ [Worker 0]) init)
      = Some (Panicked ''send on closed channel'')
 \<and> map_option status (exec demo_cfg demo_env (early_done_schedule @ [Main, Main]) init)
      = Some (Exited 1)
 \<and> map_option stdout (exec demo_cfg demo_env (early_done_schedule @ [Main, Main]) init)
      = Some (''Starting 2 threads'' @ nl @ nl @ nl @ nl
              @ ''Complete runtime: 0s | Success: 1 Failure: 1'' @ nl @ nl)"
  by (simp add: demo_defs early_done_schedule_def eval_defs report_def nl_def show_int_def)

section \<open>A command that cannot be started\<close>

text \<open>
  C5 as stated fails. The executable does not exist, \<^verbatim>\<open>CombinedOutput\<close> returns no bytes
  and the error of the launch. After lines 197 to 212 the failure is counted, and the
  report of the worker has nothing between its two blank lines: the description of the
  error is not in it.
\<close>

theorem launch_error_text_not_in_report:
  "CombinedOutput launch_env ''nosuchprog'' [''nosuchprog'', ''t/aT'']
      = ([], Some ''fork/exec nosuchprog: no such file or directory'')
 \<and> map_option ran (exec launch_cfg launch_env launch_schedule init)
      = Some [\<lparr> for_path = ''t/aT'', cmd_Path = ''nosuchprog'',
                 cmd_Args = [''nosuchprog'', ''t/aT''],
                 cmd_err = Some ''fork/exec nosuchprog: no such file or directory'' \<rparr>]
 \<and> map_option workers (exec launch_cfg launch_env launch_schedule init)
      = Some [WDefer (''Running nosuchprog t/aT'' @ nl @ nl @ nl @ nl @ ''Elapsed: 0s'' @ nl), WRecv]
 \<and> map_option fail (exec launch_cfg launch_env launch_schedule init) = Some 1"
  by (simp add: demo_defs launch_cfg_def launch_env_def launch_schedule_def eval_defs
        report_def nl_def)

text \<open>
  C5 as amended. A worker is in \<^verbatim>\<open>cmd.CombinedOutput()\<close>, the call returns bytes \<open>b\<close> and
  an error \<open>e\<close> (the process could not be started, or did not exit with status 0), and the
  lock is free. Then the next four steps of that worker (lines 197 to 212) exist and leave
  the process running: the failure counter is one higher and the success counter is
  unchanged, the call is recorded with its error, the other workers are where they were,
  and the worker holds its report, about to run \<^verbatim>\<open>wg.Done()\<close>. The report is made of the
  command line, the bytes \<open>b\<close> and the elapsed time; the text of \<open>e\<close> is not used in it.
\<close>

theorem failed_launch_is_counted_and_contained:
  assumes "status s = Running" and "i < length (workers s)" and "workers s ! i = WExec f"
    and "\<not> resultMtx s"
    and "CombinedOutput env (hd (parts s)) (read_cmdparts s (cmdparts f)) = (b, Some e)"
  shows "\<exists>s'. exec cfg env [Worker i, Worker i, Worker i, Worker i] s = Some s'
          \<and> status s' = Running
          \<and> fail s' = fail s + 1 \<and> success s' = success s
          \<and> ran s' = ran s @ [\<lparr> for_path = run_path f, cmd_Path = hd (parts s),
                                  cmd_Args = read_cmdparts s (cmdparts f), cmd_err = Some e \<rparr>]
          \<and> workers s' = (workers s)[i := WDefer (''Running ''
                               @ Join (read_cmdparts s (cmdparts f)) '' '' @ nl @ nl @ b @ nl @ nl
                               @ ''Elapsed: '' @ DurationString env (clock s - run_start f) @ nl)]"
  using assms
  by (simp add: step_def worker_step_def maybeLog_fields read_cmdparts_def report_def
           split: cmdslice.splits)

theorem failed_launch_is_counted_and_contained_witness:
  "\<exists>s s'. exec launch_cfg launch_env (take 12 launch_schedule) init = Some s
     \<and> status s = Running \<and> \<not> resultMtx s
     \<and> exec launch_cfg launch_env [Worker 0, Worker 0, Worker 0, Worker 0] s = Some s'
     \<and> fail s' = 1 \<and> success s' = 0 \<and> status s' = Running"
proof -
  have "\<exists>s. exec launch_cfg launch_env (take 12 launch_schedule) init = Some s
      \<and> status s = Running \<and> 0 < length (workers s)
      \<and> workers s ! 0 = WExec \<lparr>run_path = ''t/aT'', run_start = 0,
                                 cmdparts = Fresh [''nosuchprog'', ''t/aT''], out = [], run_err = None\<rparr>
      \<and> \<not> resultMtx s \<and> parts s = [''nosuchprog''] \<and> fail s = 0 \<and> success s = 0"
    by (simp add: demo_defs launch_cfg_def launch_env_def launch_schedule_def eval_defs)
  then obtain s where e: "exec launch_cfg launch_env (take 12 launch_schedule) init = Some s"
    and r: "status s = Running" and l: "0 < length (workers s)"
    and w: "workers s ! 0 = WExec \<lparr>run_path = ''t/aT'', run_start = 0,
                                 cmdparts = Fresh [''nosuchprog'', ''t/aT''], out = [], run_err = None\<rparr>"
    and m: "\<not> resultMtx s" and p: "parts s = [''nosuchprog'']"
    and f: "fail s = 0" and g: "success s = 0"
    by blast
  have c: "CombinedOutput launch_env (hd (parts s))
             (read_cmdparts s (cmdparts \<lparr>run_path = ''t/aT'', run_start = 0,
                                 cmdparts = Fresh [''nosuchprog'', ''t/aT''], out = [], run_err = None\<rparr>))
           = ([], Some ''fork/exec nosuchprog: no such file or directory'')"
    by (simp add: launch_env_def)
  from failed_launch_is_counted_and_contained [OF r l w m c, of launch_cfg]
  obtain s' where "exec launch_cfg launch_env [Worker 0, Worker 0, Worker 0, Worker 0] s = Some s'"
    and "status s' = Running" and "fail s' = fail s + 1" and "success s' = success s"
    by blast
  then have "exec launch_cfg launch_env (take 12 launch_schedule) init = Some s
     \<and> status s = Running \<and> \<not> resultMtx s
     \<and> exec launch_cfg launch_env [Worker 0, Worker 0, Worker 0, Worker 0] s = Some s'
     \<and> fail s' = 1 \<and> success s' = 0 \<and> status s' = Running"
    using e r m f g by simp
  then show ?thesis by blast
qed

section \<open>Errors of the walk\<close>

text \<open>
  C6 as stated fails. The root cannot be read, so the walk makes one call of the callback,
  with the root, no info and the error. The callback ignores the error; the name of the
  root matches the pattern, so the root is dispatched, the command runs on it, and the
  process ends with status 0.
\<close>

theorem inaccessible_root_is_not_fatal:
  "Walk noroot_env (root noroot_cfg)
      = [\<lparr> path = ''goneT'', info = None,
            err = Some ''lstat goneT: no such file or directory'' \<rparr>]
 \<and> map_option sent (exec noroot_cfg noroot_env noroot_schedule init) = Some [''goneT'']
 \<and> map_option (map cmd_Args) (map_option ran (exec noroot_cfg noroot_env noroot_schedule init))
      = Some [[''php'', ''run'', ''goneT'']]
 \<and> map_option status (exec noroot_cfg noroot_env noroot_schedule init) = Some (Exited 0)"
  by (simp add: demo_defs noroot_cfg_def noroot_env_def noroot_schedule_def eval_defs
        report_def nl_def show_int_def)

lemma walk_call_never_aborts:
  assumes "mainpc s = MWalk (x # xs)"
  shows "\<exists>s'. main_step cfg env s = Some s' \<and> status s' = status s
            \<and> (mainpc s' = MWalk xs \<or> mainpc s' = MSend (path x) xs)"
proof (cases "matcher s (path x) \<and> path x \<notin> files s")
  case True
  then have "walkFn (matcher s) (files s) x = Dispatch (path x)" by (simp add: walkFn_def)
  then show ?thesis using assms by (simp add: main_step_def maybeLog_fields)
next
  case False
  then have "walkFn (matcher s) (files s) x = Skip" by (auto simp: walkFn_def)
  then show ?thesis using assms by (simp add: main_step_def)
qed

text \<open>
  C6 as amended. The callback does not read the info or the error that the walk gives it:
  an entry with an error, the root included, is treated like any other entry. In every
  run, under every schedule: a call of the callback never ends the walk or the process;
  when the command is empty or the pattern does not compile, the walk is never reached and
  nothing is dispatched; and when the process has exited before the end of \<^verbatim>\<open>main\<close>, then
  the command is empty or the pattern does not compile, the status is 1, and nothing was
  dispatched or run.
\<close>

theorem only_configuration_errors_are_fatal:
  assumes "exec cfg env evs init = Some s"
  shows "(\<forall>m fs x i e. walkFn m fs (x\<lparr>info := i, err := e\<rparr>) = walkFn m fs x)
       \<and> (\<forall>x xs. mainpc s = MWalk (x # xs) \<longrightarrow>
             (\<exists>s'. main_step cfg env s = Some s' \<and> status s' = status s
                 \<and> (mainpc s' = MWalk xs \<or> mainpc s' = MSend (path x) xs)))
       \<and> (command cfg = [] \<or> isl (Compile env (pattern cfg)) \<longrightarrow>
             before_walk (mainpc s) \<and> sent s = [] \<and> ran s = [])
       \<and> (\<forall>c. status s = Exited c \<and> mainpc s \<noteq> MExit \<longrightarrow>
             (command cfg = [] \<or> isl (Compile env (pattern cfg)))
           \<and> c = 1 \<and> sent s = [] \<and> ran s = [])"
proof -
  have inv: "inv_all cfg env s" using assms by (rule inv_all_reach)
  have bw: "before_walk (mainpc s) \<Longrightarrow> sent s = [] \<and> ran s = []"
    using inv before_walk_ran [OF inv] by (cases "mainpc s") (auto simp: inv_all_def inv_pc_def)
  have a: "\<forall>m fs x i e. walkFn m fs (x\<lparr>info := i, err := e\<rparr>) = walkFn m fs x"
    by (simp add: walkFn_def)
  have b: "\<forall>x xs. mainpc s = MWalk (x # xs) \<longrightarrow>
             (\<exists>s'. main_step cfg env s = Some s' \<and> status s' = status s
                 \<and> (mainpc s' = MWalk xs \<or> mainpc s' = MSend (path x) xs))"
    using walk_call_never_aborts by blast
  have c: "command cfg = [] \<or> isl (Compile env (pattern cfg)) \<longrightarrow>
             before_walk (mainpc s) \<and> sent s = [] \<and> ran s = []"
  proof
    assume h: "command cfg = [] \<or> isl (Compile env (pattern cfg))"
    have "inv_cfg cfg env s" using inv by (simp add: inv_all_def)
    then have "before_walk (mainpc s)" using h by (auto simp: inv_cfg_def)
    then show "before_walk (mainpc s) \<and> sent s = [] \<and> ran s = []" using bw by simp
  qed
  have d: "\<forall>c. status s = Exited c \<and> mainpc s \<noteq> MExit \<longrightarrow>
             (command cfg = [] \<or> isl (Compile env (pattern cfg)))
           \<and> c = 1 \<and> sent s = [] \<and> ran s = []"
  proof (intro allI impI)
    fix c assume h: "status s = Exited c \<and> mainpc s \<noteq> MExit"
    then have "(mainpc s = MStart \<and> command cfg = [] \<and> c = 1)
       \<or> (mainpc s = MCompile \<and> command cfg \<noteq> [] \<and> isl (Compile env (pattern cfg)) \<and> c = 1)"
      using exited_cases [OF inv, of c] by auto
    then show "(command cfg = [] \<or> isl (Compile env (pattern cfg)))
           \<and> c = 1 \<and> sent s = [] \<and> ran s = []"
      using bw by auto
  qed
  show ?thesis using a b c d by blast
qed

theorem only_configuration_errors_are_fatal_witness:
  "\<exists>s. exec noroot_cfg noroot_env (take 2 noroot_schedule) init = Some s
     \<and> mainpc s = MWalk [\<lparr> path = ''goneT'', info = None,
                              err = Some ''lstat goneT: no such file or directory'' \<rparr>]
     \<and> (\<exists>s'. main_step noroot_cfg noroot_env s = Some s' \<and> status s' = status s
            \<and> mainpc s' = MSend ''goneT'' [])"
proof -
  have "\<exists>s. exec noroot_cfg noroot_env (take 2 noroot_schedule) init = Some s
     \<and> mainpc s = MWalk [\<lparr> path = ''goneT'', info = None,
                              err = Some ''lstat goneT: no such file or directory'' \<rparr>]"
    by (simp add: demo_defs noroot_cfg_def noroot_env_def noroot_schedule_def eval_defs)
  then obtain s where e: "exec noroot_cfg noroot_env (take 2 noroot_schedule) init = Some s"
    and m: "mainpc s = MWalk [\<lparr> path = ''goneT'', info = None,
                              err = Some ''lstat goneT: no such file or directory'' \<rparr>]"
    by blast
  from only_configuration_errors_are_fatal [OF e] m
  obtain s' where "main_step noroot_cfg noroot_env s = Some s'" and "status s' = status s"
    and "mainpc s' = MWalk [] \<or> mainpc s' = MSend ''goneT'' []"
    by fastforce
  moreover have "mainpc s' \<noteq> MWalk []"
    using e m calculation(1)
    by (auto simp add: demo_defs noroot_cfg_def noroot_env_def noroot_schedule_def eval_defs)
  ultimately show ?thesis using e m by blast
qed

section \<open>The argument list\<close>

lemma list_all_update: "list_all P xs \<Longrightarrow> P x \<Longrightarrow> list_all P (xs[i := x])"
  by (induction xs arbitrary: i) (auto split: nat.splits)

lemma list_all_nth: "list_all P xs \<Longrightarrow> i < length xs \<Longrightarrow> P (xs ! i)"
  by (simp add: list_all_length)

lemma main_keeps_workers_ran:
  assumes "main_step cfg env s = Some s'" and "mainpc s \<noteq> MStart"
  shows "parts s' = parts s \<and> parts_cap s' = parts_cap s \<and> workers s' = workers s \<and> ran s' = ran s"
  using assms(1)
  by (cases rule: main_step_cases) (use assms(2) in \<open>simp_all add: maybeLog_fields\<close>)

lemma inv_args_main:
  assumes "main_step cfg env s = Some s'" and "inv_args cfg s" and "inv_all cfg env s"
  shows "inv_args cfg s'"
proof (cases "mainpc s = MStart")
  case False
  then show ?thesis
    using main_keeps_workers_ran [OF assms(1)] assms(2) by (simp add: inv_args_def)
next
  case True
  then have "before_walk (mainpc s)" by simp
  then have r: "ran s = []" using before_walk_ran [OF assms(3)] by simp
  show ?thesis using assms(1)
  proof (cases rule: main_step_cases)
    case NoCommand
    then show ?thesis using assms(2) by (simp add: inv_args_def)
  next
    case Start
    then show ?thesis using r by (simp add: inv_args_def list_all_iff)
  qed (use True in simp_all)
qed

lemma worker_keeps_parts:
  assumes "worker_step cfg env i s = Some s'"
  shows "parts s' = parts s \<and> parts_cap s' = parts_cap s"
  using assms by (cases rule: worker_step_cases) (simp_all add: maybeLog_fields)

lemma worker_frames:
  assumes "worker_step cfg env i s = Some s'" and "\<not> length (parts s) < parts_cap s"
    and "parts s = Split (command cfg)"
    and ws: "list_all (frame_ok cfg) (workers s)"
  shows "list_all (frame_ok cfg) (workers s')"
  using assms(1)
proof (cases rule: worker_step_cases)
  case (Recv p q)
  have "list_all (frame_ok cfg) ((workers s)[i := WRun p])"
    by (rule list_all_update [OF ws]) simp
  then show ?thesis using Recv by (simp add: maybeLog_fields)
next
  case End
  have "list_all (frame_ok cfg) ((workers s)[i := WExit])"
    by (rule list_all_update [OF ws]) simp
  then show ?thesis using End by simp
next
  case (RunPanic p)
  then show ?thesis using ws by simp
next
  case (RunShared p)
  then show ?thesis using assms(2) by simp
next
  case (RunFresh p)
  have "list_all (frame_ok cfg) ((workers s)[i := WExec \<lparr>run_path = p, run_start = clock s,
          cmdparts = Fresh (parts s @ [p]), out = [], run_err = None\<rparr>])"
    by (rule list_all_update [OF ws]) (simp add: assms(3))
  then show ?thesis using RunFresh by simp
next
  case (Exec f b e)
  have "frame_ok cfg (workers s ! i)" using Exec(1) by (rule list_all_nth [OF ws])
  then have "frame_ok cfg (WLock (f\<lparr>out := b, run_err := e\<rparr>))" using Exec by simp
  then have "list_all (frame_ok cfg) ((workers s)[i := WLock (f\<lparr>out := b, run_err := e\<rparr>)])"
    by (rule list_all_update [OF ws])
  then show ?thesis using Exec by simp
next
  case (Lock f)
  have "frame_ok cfg (workers s ! i)" using Lock(1) by (rule list_all_nth [OF ws])
  then have "frame_ok cfg (WCount f)" using Lock by simp
  then have "list_all (frame_ok cfg) ((workers s)[i := WCount f])"
    by (rule list_all_update [OF ws])
  then show ?thesis using Lock by simp
next
  case (CountFail f)
  have "frame_ok cfg (workers s ! i)" using CountFail(1) by (rule list_all_nth [OF ws])
  then have "frame_ok cfg (WUnlock f)" using CountFail by simp
  then have "list_all (frame_ok cfg) ((workers s)[i := WUnlock f])"
    by (rule list_all_update [OF ws])
  then show ?thesis using CountFail by simp
next
  case (CountOk f)
  have "frame_ok cfg (workers s ! i)" using CountOk(1) by (rule list_all_nth [OF ws])
  then have "frame_ok cfg (WUnlock f)" using CountOk by simp
  then have "list_all (frame_ok cfg) ((workers s)[i := WUnlock f])"
    by (rule list_all_update [OF ws])
  then show ?thesis using CountOk by simp
next
  case (Unlock f)
  have "list_all (frame_ok cfg) ((workers s)[i := WDefer (report (read_cmdparts s (cmdparts f)) (out f)
          (DurationString env (clock s - run_start f)))])"
    by (rule list_all_update [OF ws]) simp
  then show ?thesis using Unlock by (simp add: maybeLog_fields)
next
  case (DeferPanic r)
  then show ?thesis using ws by simp
next
  case (Defer r)
  have "list_all (frame_ok cfg) ((workers s)[i := WSend r])"
    by (rule list_all_update [OF ws]) simp
  then show ?thesis using Defer by simp
next
  case (SendPanic r)
  then show ?thesis using ws by simp
next
  case (Send r)
  have "list_all (frame_ok cfg) ((workers s)[i := WRecv])"
    by (rule list_all_update [OF ws]) simp
  then show ?thesis using Send by simp
qed

lemma worker_ran:
  assumes "worker_step cfg env i s = Some s'"
    and "parts s = Split (command cfg)"
    and ws: "list_all (frame_ok cfg) (workers s)"
    and rs: "list_all (\<lambda>r. cmd_Args r = Split (command cfg) @ [for_path r]) (ran s)"
  shows "list_all (\<lambda>r. cmd_Args r = Split (command cfg) @ [for_path r]) (ran s')"
  using assms(1)
proof (cases rule: worker_step_cases)
  case (Exec f b e)
  have "frame_ok cfg (workers s ! i)" using Exec(1) by (rule list_all_nth [OF ws])
  then have "cmdparts f = Fresh (Split (command cfg) @ [run_path f])" using Exec by simp
  then show ?thesis using Exec rs by (simp add: read_cmdparts_def)
qed (use rs in \<open>simp_all add: maybeLog_fields\<close>)

lemma inv_args_worker:
  assumes "worker_step cfg env i s = Some s'" and "inv_args cfg s" and "inv_pc cfg s"
  shows "inv_args cfg s'"
proof (cases "length (parts s) < parts_cap s")
  case True
  then show ?thesis using worker_keeps_parts [OF assms(1)] by (simp add: inv_args_def)
next
  case False
  have i: "i < length (workers s)" using assms(1) by (cases rule: worker_step_cases)
  have p: "parts s = Split (command cfg)" using assms(3) i by (rule inv_pc_parts)
  have ws: "list_all (frame_ok cfg) (workers s)"
    and rs: "list_all (\<lambda>r. cmd_Args r = Split (command cfg) @ [for_path r]) (ran s)"
    using assms(2) False by (simp_all add: inv_args_def)
  show ?thesis
    using worker_frames [OF assms(1) False p ws] worker_ran [OF assms(1) p ws rs]
    by (simp add: inv_args_def)
qed

lemma inv_args_step:
  assumes "step cfg env ev s = Some s'" and "inv_args cfg s" and "inv_all cfg env s"
  shows "inv_args cfg s'"
proof -
  have run: "status s = Running" using assms(1) by (simp add: step_def split: if_splits)
  have pc: "inv_pc cfg s" using assms(3) by (simp add: inv_all_def)
  show ?thesis
  proof (cases ev)
    case Main
    then have "main_step cfg env s = Some s'" using assms(1) run by (simp add: step_def)
    then show ?thesis using assms(2,3) by (rule inv_args_main)
  next
    case (Worker i)
    then have "worker_step cfg env i s = Some s'" using assms(1) run by (simp add: step_def)
    then show ?thesis using assms(2) pc by (rule inv_args_worker)
  next
    case Printer
    then have "printer_step s = Some s'" using assms(1) run by (simp add: step_def)
    then have "parts s' = parts s \<and> parts_cap s' = parts_cap s \<and> workers s' = workers s
                \<and> ran s' = ran s"
      by (cases rule: printer_step_cases) simp_all
    then show ?thesis using assms(2) by (simp add: inv_args_def)
  next
    case Timeout
    then have "timeout_step s = Some s'" using assms(1) run by (simp add: step_def)
    then have "parts s' = parts s \<and> parts_cap s' = parts_cap s \<and> workers s' = workers s
                \<and> ran s' = ran s"
      by (cases rule: timeout_step_cases) simp_all
    then show ?thesis using assms(2) by (simp add: inv_args_def)
  next
    case (Advance d)
    then have "s' = s\<lparr>clock := clock s + d\<rparr>" using assms(1) run by (simp add: step_def)
    then show ?thesis using assms(2) by (simp add: inv_args_def)
  qed
qed

lemma inv_args_exec:
  "exec cfg env evs s = Some s' \<Longrightarrow> inv_args cfg s \<Longrightarrow> inv_all cfg env s \<Longrightarrow> inv_args cfg s'"
proof (induction evs arbitrary: s)
  case Nil
  then show ?case by simp
next
  case (Cons ev evs)
  then obtain s1 where a: "step cfg env ev s = Some s1" and b: "exec cfg env evs s1 = Some s'"
    by (auto split: option.splits)
  have "inv_args cfg s1" using a Cons.prems(2,3) by (rule inv_args_step)
  moreover have "inv_all cfg env s1" using a Cons.prems(3) by (rule inv_all_step)
  ultimately show ?case using Cons.IH b by blast
qed

text \<open>
  Without spare capacity in the slice \<^verbatim>\<open>parts\<close> (under the gc runtime: a command of one or
  two parts), line 191 copies, and in every run every command was started with the parts
  of the command followed by the path that \<^verbatim>\<open>run\<close> was called with.
\<close>

lemma arguments_end_with_path_without_spare_capacity:
  assumes "exec cfg env evs init = Some s" and "\<not> length (parts s) < parts_cap s"
  shows "\<forall>r\<in>set (ran s). cmd_Args r = Split (command cfg) @ [for_path r]"
proof -
  have "inv_args cfg init" by (simp add: inv_args_def init_def)
  then have "inv_args cfg s" using assms(1) inv_all_init inv_args_exec by blast
  then show ?thesis using assms(2) by (simp add: inv_args_def list_all_iff)
qed

text \<open>
  C7, at a failing schedule. The command has three parts, so the slice \<^verbatim>\<open>parts\<close> has
  length 3 and capacity 4, and \<^verbatim>\<open>append(parts[:], path)\<close> writes the path into the one
  backing array that all workers share. Worker 0 is given \<^verbatim>\<open>t/aT\<close> and worker 1 is given
  \<^verbatim>\<open>t/cT\<close>; both run line 191, then worker 0 runs line 197: its command is started with
  \<^verbatim>\<open>t/cT\<close> as the last argument, not with the path it was called with.
\<close>

theorem shared_backing_array_overwrites_path:
  "map_option parts (exec alias_cfg demo_env alias_schedule init) = Some [''php'', ''run'', ''-v'']
 \<and> map_option parts_cap (exec alias_cfg demo_env alias_schedule init) = Some 4
 \<and> map_option ran (exec alias_cfg demo_env alias_schedule init)
      = Some [\<lparr> for_path = ''t/aT'', cmd_Path = ''php'',
                 cmd_Args = [''php'', ''run'', ''-v'', ''t/cT''],
                 cmd_err = Some ''exit status 1'' \<rparr>]"
  by (simp add: demo_defs alias_cfg_def alias_schedule_def eval_defs)

section \<open>The printer\<close>

lemma strip_decomp: "\<exists>ws. set ws \<subseteq> set ts \<and> s = concat ws @ strip ts s"
proof (induction ts s rule: strip.induct)
  case (1 ts s)
  show ?case
  proof (cases "find (\<lambda>e. e \<noteq> [] \<and> take (length e) s = e) ts")
    case None
    then have "strip ts s = s" by (simp add: strip.simps)
    then have "set [] \<subseteq> set ts \<and> s = concat [] @ strip ts s" by simp
    then show ?thesis by blast
  next
    case (Some e)
    then have e: "e \<in> set ts" and t: "take (length e) s = e"
      by (auto simp: find_Some_iff)
    from 1 [OF Some] obtain ws where ws: "set ws \<subseteq> set ts"
      and d: "drop (length e) s = concat ws @ strip ts (drop (length e) s)"
      by blast
    have st: "strip ts s = strip ts (drop (length e) s)" using Some by (simp add: strip.simps)
    have "s = take (length e) s @ drop (length e) s" by simp
    then have "s = e @ concat ws @ strip ts s" using t d st by metis
    then have "set (e # ws) \<subseteq> set ts \<and> s = concat (e # ws) @ strip ts s"
      using e ws by simp
    then show ?thesis by blast
  qed
qed

lemma strip_no_prefix:
  "e \<in> set ts \<Longrightarrow> e \<noteq> [] \<Longrightarrow> take (length e) (strip ts s) \<noteq> e"
proof (induction ts s rule: strip.induct)
  case (1 ts s)
  show ?case
  proof (cases "find (\<lambda>e. e \<noteq> [] \<and> take (length e) s = e) ts")
    case None
    then have "strip ts s = s" by (simp add: strip.simps)
    moreover have "\<not> (e \<noteq> [] \<and> take (length e) s = e)"
      using None "1.prems"(1) unfolding find_None_iff by blast
    ultimately show ?thesis using "1.prems"(2) by simp
  next
    case (Some x)
    then have "strip ts s = strip ts (drop (length x) s)" by (simp add: strip.simps)
    then show ?thesis using "1.IH" [OF Some "1.prems"] by simp
  qed
qed

lemma TrimSpace_decomp:
  "\<exists>pre post. set pre \<subseteq> set space_runes \<and> set post \<subseteq> set space_runes
       \<and> r = concat pre @ TrimSpace r @ concat post"
proof -
  let ?x = "TrimLeftSpace r"
  obtain pre where pre: "set pre \<subseteq> set space_runes" and l: "r = concat pre @ ?x"
    using strip_decomp [of space_runes r] unfolding TrimLeftSpace_def by blast
  obtain ws where ws: "set ws \<subseteq> set (map rev space_runes)"
    and b: "rev ?x = concat ws @ strip (map rev space_runes) (rev ?x)"
    using strip_decomp [of "map rev space_runes" "rev ?x"] by blast
  have "rev (rev ?x) = rev (concat ws @ strip (map rev space_runes) (rev ?x))"
    using b by simp
  then have x: "?x = TrimRightSpace ?x @ concat (map rev (rev ws))"
    by (simp add: TrimRightSpace_def rev_concat)
  have post: "set (map rev (rev ws)) \<subseteq> set space_runes" using ws by auto
  have "r = concat pre @ TrimSpace r @ concat (map rev (rev ws))"
    using l x by (simp add: TrimSpace_def)
  then show ?thesis using pre post by blast
qed

lemma TrimSpace_no_suffix:
  assumes "e \<in> set space_runes"
  shows "TrimSpace r \<noteq> u @ e"
proof
  assume h: "TrimSpace r = u @ e"
  have ne: "e \<noteq> []" using assms by (auto simp: space_runes_def)
  have "rev e \<in> set (map rev space_runes)" using assms by simp
  then have "take (length (rev e)) (strip (map rev space_runes) (rev (TrimLeftSpace r))) \<noteq> rev e"
    using ne strip_no_prefix [of "rev e" "map rev space_runes"] by simp
  moreover have "strip (map rev space_runes) (rev (TrimLeftSpace r)) = rev e @ rev u"
    using h by (simp add: TrimSpace_def TrimRightSpace_def) (metis rev_append rev_rev_ident)
  ultimately show False by simp
qed

lemma TrimSpace_no_prefix:
  assumes "e \<in> set space_runes"
  shows "TrimSpace r \<noteq> e @ v"
proof
  assume h: "TrimSpace r = e @ v"
  have ne: "e \<noteq> []" using assms by (auto simp: space_runes_def)
  obtain ws where "rev (TrimLeftSpace r)
      = concat ws @ strip (map rev space_runes) (rev (TrimLeftSpace r))"
    using strip_decomp [of "map rev space_runes" "rev (TrimLeftSpace r)"] by blast
  then have "rev (rev (TrimLeftSpace r))
      = rev (concat ws @ strip (map rev space_runes) (rev (TrimLeftSpace r)))"
    by simp
  then have "TrimLeftSpace r = TrimSpace r @ rev (concat ws)"
    by (simp add: TrimSpace_def TrimRightSpace_def)
  then have "TrimLeftSpace r = e @ v @ rev (concat ws)" using h by simp
  then have "take (length e) (strip space_runes r) = e" by (simp add: TrimLeftSpace_def)
  then show False using strip_no_prefix [OF assms ne, of r] by simp
qed

text \<open>
  What holds of one step of the printer. When the printer holds a string that it has
  received, its next step (lines 220 to 222) writes to standard output a line feed, the
  trimmed string and two line feeds, or nothing at all when the trimmed string is empty.
  The trimmed string is the received one less a sequence of white space code points at
  each end, and it neither begins nor ends with a white space code point.
\<close>

lemma printer_step_writes_trimmed:
  assumes "printer s = PGot r"
  shows "\<exists>s'. printer_step s = Some s'
          \<and> stdout s' = (if TrimSpace r = [] then stdout s
                         else stdout s @ nl @ TrimSpace r @ nl @ nl)
          \<and> printer s' = PSelect"
  using assms by (simp add: printer_step_def)

lemma TrimSpace_examples:
  "TrimSpace ('' Running x'' @ nl) = ''Running x''"
  "TrimSpace [CHR 0xC2, CHR 0xA0] = []"
  "TrimSpace [] = []"
  by (simp_all add: trim_defs nl_def)

text \<open>
  C8, at a failing schedule. Two test files, two workers. The printer receives the report
  of the first file and writes it, trimmed. It then receives the report of the second file
  (line 219); both workers have long run their \<^verbatim>\<open>wg.Done()\<close> (line 188, before the send
  of line 182), so \<^verbatim>\<open>main\<close> is through \<^verbatim>\<open>wg.Wait()\<close> and runs to its end before the
  printer reaches line 221. The process has exited, the printer still holds the report of
  the second file, and standard output has the first report and the summary only.
\<close>

theorem received_report_never_written:
  "map_option status (exec demo_cfg demo_env unprinted_schedule init) = Some (Exited 1)
 \<and> map_option printer (exec demo_cfg demo_env unprinted_schedule init)
      = Some (PGot (''Running php run t/cT'' @ nl @ nl @ ''boom'' @ nl @ nl @ ''Elapsed: 0s'' @ nl))
 \<and> map_option stdout (exec demo_cfg demo_env unprinted_schedule init)
      = Some (''Starting 2 threads'' @ nl @ nl
              @ nl @ ''Running php run t/aT'' @ nl @ nl @ ''ok'' @ nl @ nl @ ''Elapsed: 0s'' @ nl @ nl
              @ nl @ nl @ ''Complete runtime: 0s | Success: 1 Failure: 1'' @ nl @ nl)"
  by (simp add: demo_defs unprinted_schedule_def eval_defs trim_defs report_def nl_def show_int_def)

section \<open>Directories\<close>

text \<open>
  C9, at a failing input. The walk yields a directory whose path matches the pattern. The
  callback of the program (lines 266 to 277) dispatches it, and the run sends it on the
  input channel; the callback of the first variant (lines 116 to 125), which asks
  \<^verbatim>\<open>info.IsDir()\<close>, skips it.
\<close>

theorem matching_directory_is_dispatched:
  "info dir_call = Some (FileInfo True)
 \<and> demo_matcher (path dir_call)
 \<and> walkFn demo_matcher {} dir_call = Dispatch ''t/dirT''
 \<and> walkFn_first demo_matcher dir_call = Skip
 \<and> map_option sent (exec demo_cfg dir_env dir_schedule init) = Some [''t/dirT'']"
  by (simp add: demo_defs dir_env_def dir_call_def dir_schedule_def eval_defs walkFn_first_def)

section \<open>A command that begins with white space\<close>

lemma fold_Split_loop_hd:
  assumes "st \<noteq> []"
  shows "snd (snd (fold (Split_loop s) ms (b, e, st))) \<noteq> []
       \<and> hd (snd (snd (fold (Split_loop s) ms (b, e, st)))) = hd st"
  using assms
proof (induction ms arbitrary: b e st)
  case Nil
  then show ?case by simp
next
  case (Cons m ms)
  show ?case
  proof (cases "snd m \<noteq> 0")
    case True
    have "st @ [slice s b (fst m)] \<noteq> []" by simp
    from Cons.IH [OF this, of "snd m" "fst m"] Cons.prems True
    show ?thesis by (simp add: Split_loop_def)
  next
    case False
    from Cons.IH [OF Cons.prems, of "snd m" "fst m"] False
    show ?thesis by (simp add: Split_loop_def)
  qed
qed

lemma hd_Split_space:
  assumes "s \<noteq> []" and "isSpaceRE (hd s)"
  shows "hd (Split s) = []"
proof -
  obtain c cs where s: "s = c # cs" using assms(1) by (cases s) auto
  then have sp: "isSpaceRE c" using assms(2) by simp
  define n where "n = length (takeWhile isSpaceRE cs)"
  define rest where "rest = FindAllStringIndex (1 + n) (dropWhile isSpaceRE cs)"
  have m: "FindAllStringIndex 0 s = (0, 1 + n) # rest"
    using sp by (simp add: s n_def rest_def)
  have f: "fold (Split_loop s) (FindAllStringIndex 0 s) (0, 0, [])
             = fold (Split_loop s) rest (1 + n, 0, [[]])"
    by (simp add: m Split_loop_def slice_def)
  obtain b e st where r: "fold (Split_loop s) rest (1 + n, 0, [[]]) = (b, e, st)"
    by (cases "fold (Split_loop s) rest (1 + n, 0, [[]])") auto
  have "st \<noteq> [] \<and> hd st = []"
    using fold_Split_loop_hd [of "[[]]" s rest "1 + n" 0] r by simp
  then show ?thesis using assms(1) f r by (simp add: Split_def)
qed

text \<open>
  C10 as stated fails. The command begins with a space, so it passes the check of line 239
  and its first part is empty; the walk yields no file that matches the pattern. Nothing is
  dispatched, no command is run, and the process ends with status 0, not 1.
\<close>

theorem blank_command_without_match_exits_zero:
  "command blank_cfg = '' php''
 \<and> Split (command blank_cfg) = [[], ''php'']
 \<and> map_option sent (exec blank_cfg nomatch_env nomatch_schedule init) = Some []
 \<and> map_option ran (exec blank_cfg nomatch_env nomatch_schedule init) = Some []
 \<and> map_option fail (exec blank_cfg nomatch_env nomatch_schedule init) = Some 0
 \<and> map_option status (exec blank_cfg nomatch_env nomatch_schedule init) = Some (Exited 0)
 \<and> map_option exit_status (map_option status (exec blank_cfg nomatch_env nomatch_schedule init))
      = Some (Some 0)"
  by (simp add: demo_defs blank_cfg_def blank_env_def nomatch_env_def nomatch_schedule_def eval_defs)

text \<open>
  C10 as amended. The command is not empty and begins with a character of the class
  \<^verbatim>\<open>\s\<close> (a command of white space only is such a command), and a process with an empty
  path cannot be started: \<^verbatim>\<open>CombinedOutput\<close> returns an error for it. Then the first step
  of \<^verbatim>\<open>main\<close> passes the check of line 239 and goes on with an empty first part, which
  line 194 takes as the path of the executable. In every run, under every schedule, every
  command that was run had the empty path and returned an error. When the process has
  exited at the end of \<^verbatim>\<open>main\<close>, every dispatched file is in the failure counter, and the
  exit status is 1 if at least one file was dispatched and 0 if none was; an exit before
  the end of \<^verbatim>\<open>main\<close> is the pattern that does not compile, never the command.
\<close>

theorem blank_command_fails_per_file:
  assumes "command cfg \<noteq> []" and "isSpaceRE (hd (command cfg))"
    and "\<forall>args. snd (CombinedOutput env [] args) \<noteq> None"
    and "exec cfg env evs init = Some s"
  shows "(\<exists>s1. main_step cfg env init = Some s1 \<and> status s1 = Running
              \<and> mainpc s1 = MCompile \<and> hd (parts s1) = [])
       \<and> (\<forall>r\<in>set (ran s). cmd_Path r = [] \<and> cmd_err r \<noteq> None)
       \<and> (\<forall>c. status s = Exited c \<and> mainpc s = MExit \<longrightarrow>
             fail s = int (length (sent s)) \<and> success s = 0
           \<and> c = (if sent s = [] then 0 else 1))
       \<and> (\<forall>c. status s = Exited c \<and> mainpc s \<noteq> MExit \<longrightarrow>
             isl (Compile env (pattern cfg)) \<and> c = 1)"
proof -
  have inv: "inv_all cfg env s" using assms(4) by (rule inv_all_reach)
  have h: "hd (Split (command cfg)) = []" using assms(1,2) by (rule hd_Split_space)
  have a: "\<exists>s1. main_step cfg env init = Some s1 \<and> status s1 = Running
              \<and> mainpc s1 = MCompile \<and> hd (parts s1) = []"
    using assms(1) h by (simp add: main_step_def init_def)
  have "inv_ran cfg env s" using inv by (simp add: inv_all_def)
  then have b: "\<forall>r\<in>set (ran s). cmd_Path r = [] \<and> cmd_err r \<noteq> None"
    using h assms(3) by (auto simp: inv_ran_def list_all_iff)
  have c: "\<forall>c. status s = Exited c \<and> mainpc s = MExit \<longrightarrow>
             fail s = int (length (sent s)) \<and> success s = 0
           \<and> c = (if sent s = [] then 0 else 1)"
  proof (intro allI impI)
    fix c assume x: "status s = Exited c \<and> mainpc s = MExit"
    then have z: "wg s = 0" using inv past_wait_wg [of cfg s] by (simp add: inv_all_def)
    have all: "filter (\<lambda>r. cmd_err r \<noteq> None) (ran s) = ran s" using b by simp
    have none: "filter (\<lambda>r. cmd_err r = None) (ran s) = []" using b by simp
    have f: "fail s = int (length (sent s))"
      using drained_tally(1) [OF inv z] drained_tally(3) [OF inv z] all by simp
    have g: "success s = 0" using drained_tally(2) [OF inv z] none by simp
    have "c = (if fail s > 0 then 1 else 0)" using exited_cases [OF inv, of c] x by auto
    then show "fail s = int (length (sent s)) \<and> success s = 0
           \<and> c = (if sent s = [] then 0 else 1)"
      using f g by auto
  qed
  have d: "\<forall>c. status s = Exited c \<and> mainpc s \<noteq> MExit \<longrightarrow>
             isl (Compile env (pattern cfg)) \<and> c = 1"
    using exited_cases [OF inv] assms(1) by auto
  show ?thesis using a b c d by blast
qed

theorem blank_command_fails_per_file_witness:
  "command blank_cfg \<noteq> [] \<and> isSpaceRE (hd (command blank_cfg))
 \<and> (\<forall>args. snd (CombinedOutput blank_env [] args) \<noteq> None)
 \<and> (\<exists>s. exec blank_cfg blank_env demo_schedule init = Some s
        \<and> status s = Exited 1 \<and> mainpc s = MExit \<and> fail s = 2 \<and> sent s = [''t/aT'', ''t/cT'']
        \<and> (\<forall>r\<in>set (ran s). cmd_Path r = [] \<and> cmd_err r \<noteq> None))"
proof -
  have h1: "command blank_cfg \<noteq> []" by (simp add: blank_cfg_def demo_cfg_def)
  have h2: "isSpaceRE (hd (command blank_cfg))"
    by (simp add: blank_cfg_def demo_cfg_def isSpaceRE_def)
  have h3: "\<forall>args. snd (CombinedOutput blank_env [] args) \<noteq> None"
    by (simp add: blank_env_def demo_env_def)
  have "\<exists>s. exec blank_cfg blank_env demo_schedule init = Some s
        \<and> status s = Exited 1 \<and> mainpc s = MExit \<and> fail s = 2 \<and> sent s = [''t/aT'', ''t/cT'']"
    by (simp add: demo_defs blank_cfg_def blank_env_def eval_defs)
  then obtain s where e: "exec blank_cfg blank_env demo_schedule init = Some s"
    and x: "status s = Exited 1" and m: "mainpc s = MExit" and f: "fail s = 2"
    and t: "sent s = [''t/aT'', ''t/cT'']"
    by blast
  have r: "\<forall>r\<in>set (ran s). cmd_Path r = [] \<and> cmd_err r \<noteq> None"
    using blank_command_fails_per_file [OF h1 h2 h3 e] by blast
  have "exec blank_cfg blank_env demo_schedule init = Some s
        \<and> status s = Exited 1 \<and> mainpc s = MExit \<and> fail s = 2 \<and> sent s = [''t/aT'', ''t/cT'']
        \<and> (\<forall>r\<in>set (ran s). cmd_Path r = [] \<and> cmd_err r \<noteq> None)"
    using e x m f t r by simp
  then show ?thesis using h1 h2 h3 by blast
qed

end
